theory Spec2Isabelle
  imports Main "HOL-Library.Word" "HOL-Library.AList"
begin

section \<open>The health service front-end (service/service.go)\<close>

text \<open>
  The theory embeds the gRPC front-end of the health observation exchange:
  the handle registry, report submission and learning, the queries, the hold
  buffer drain, the lifecycle and the garbage-collection loop. The packages
  \<open>store\<close>, \<open>exchange\<close>, \<open>types\<close> and the database are collaborators of the
  front-end; they are modelled from their documented contracts and every such
  definition says so.
\<close>

subsection \<open>Basic types and constants\<close>

text \<open>Handles are \<open>uint64\<close>: arithmetic wraps and comparison is unsigned.\<close>

type_synonym handle = "64 word"

text \<open>Wall-clock instants, in nanoseconds since the epoch.\<close>

type_synonym instant = int

text \<open>
  \<open>time.Duration\<close> is an \<open>int64\<close> count of nanoseconds. It is kept as an
  integer and every product is wrapped to the signed 64-bit range by hand.
\<close>

type_synonym duration = int

definition wrap64 :: "int \<Rightarrow> int" where
  "wrap64 x = (x + 2 ^ 63) mod 2 ^ 64 - 2 ^ 63"

definition Second :: duration where
  "Second = 1000000000"

definition Minute :: duration where
  "Minute = 60 * Second"

definition HANDLE_START :: handle where
  "HANDLE_START = 10000"

definition GC_FREQUENCY :: duration where
  "GC_FREQUENCY = 3 * Minute"

definition GC_THRESHOLD :: duration where
  "GC_THRESHOLD = 5 * Minute"

definition GC_RELATIVE :: bool where
  "GC_RELATIVE = True"

definition HOLD_TIME :: duration where
  "HOLD_TIME = 3 * Minute"

definition HOLD_LIST_LEN :: int where
  "HOLD_LIST_LEN = 60"

definition DEFAULT_DBFILE :: string where
  "DEFAULT_DBFILE = ''deephealth.db''"

subsection \<open>Messages\<close>

datatype status = HEALTHY | UNHEALTHY | MAYBE_HEALTHY | MAYBE_UNHEALTHY | PENDING | INVALID

record metric =
  Name :: string
  Status :: status
  Score :: int

record observation =
  Ts :: instant
  Metrics :: "metric list"

text \<open>\<open>pb.Report\<close>: the observation is a pointer and may be nil.\<close>

record report =
  Observer :: string
  Subject :: string
  Observation :: "observation option"

type_synonym view = "observation list"

type_synonym panorama = "(string \<times> view) list"

record inference_result =
  inf_Subject :: string
  inf_Observers :: "string list"
  inf_Metrics :: "metric list"

text \<open>\<open>dt.Registration\<close>, with the embedded \<open>ObserverModule\<close> flattened.\<close>

record registration =
  reg_Module :: string
  reg_Observer :: string
  reg_Handle :: handle
  reg_Time :: instant

record RegisterRequest =
  req_Module :: string
  req_Observer :: string

record RegisterReply =
  Handle :: handle

datatype reply_status = ACCEPTED | IGNORED | FAILED

record SubmitReportRequest =
  sub_Handle :: handle
  sub_Report :: "report option"

record peer =
  Id :: string
  Addr :: string

datatype learn_kind = NORMAL | SUBSCRIPTION | UNSUBSCRIPTION | OTHER_KIND

record LearnReportRequest =
  Kind :: learn_kind
  Source :: "peer option"
  Report :: "report option"

text \<open>
  What a handler does: it returns a reply pointer and an error (either may be
  nil, and \<open>SubmitReport\<close> and \<open>LearnReport\<close> can return both), or it
  dereferences a nil pointer of the request and panics.
\<close>

datatype 'r outcome = Return "'r option" "string option" | Panic

subsection \<open>Configuration\<close>

text \<open>
  Modelled from the spec: the declaration of \<open>dt.HealthServerConfig\<close> is in the
  \<open>types\<close> package. The fields are the options the front-end reads; the
  second counts are Go integers, kept as \<open>int\<close>.
\<close>

record GCConfig =
  Enable :: bool
  Frequency :: int
  Threshold :: int
  Relative :: bool

record BufConfig =
  HoldTime :: int
  HoldListLen :: int

record HealthServerConfig =
  cfg_Id :: string
  cfg_Addr :: string
  Peers :: "(string \<times> string) list"
  Subjects :: "string list"
  FilterSubmission :: bool
  DBFile :: string
  cfg_GCConfig :: GCConfig
  cfg_BufConfig :: BufConfig

subsection \<open>The observation store\<close>

text \<open>
  Modelled from the spec: the \<open>store\<close> package (\<open>RawHealthStorage\<close>) is not
  part of the front-end. The watch list maps a subject to the time it was
  first observed; the tenants map a subject to its panorama, a panorama maps
  an observer to its view. A view is ordered by timestamp and bounded in
  length, the oldest observation dropping first. The bound is a constant of
  the store and is a parameter here.
\<close>

record storage =
  Watchlist :: "string \<rightharpoonup> instant"
  Tenants :: "(string \<times> panorama) list"
  view_bound :: nat
  st_sink :: bool

text \<open>Modelled from the spec: the three results of \<open>AddReport\<close> (\<open>store.REPORT_ACCEPTED\<close> and its siblings).\<close>

datatype accept_code = REPORT_ACCEPTED | REPORT_IGNORED | REPORT_FAILED

text \<open>Modelled from the spec: the initial watch list is the configured subjects.\<close>

definition NewRawHealthStorage :: "nat \<Rightarrow> instant \<Rightarrow> string list \<Rightarrow> storage" where
  "NewRawHealthStorage bound now subjects =
     \<lparr>Watchlist = map_of (map (\<lambda>s. (s, now)) subjects), Tenants = [],
      view_bound = bound, st_sink = False\<rparr>"

text \<open>
  Modelled from the spec: \<open>AddSubject\<close> is idempotent, records the current
  time if the subject is new and returns whether it was newly added.
\<close>

definition AddSubject :: "storage \<Rightarrow> string \<Rightarrow> instant \<Rightarrow> bool \<times> storage" where
  "AddSubject st subject now =
     (case Watchlist st subject of
        Some t \<Rightarrow> (False, st)
      | None \<Rightarrow> (True, st\<lparr>Watchlist := (Watchlist st)(subject \<mapsto> now)\<rparr>))"

text \<open>
  Modelled from the spec: the acceptance rule and the append semantics of
  \<open>AddReport\<close>. With the filter on, a report whose subject is not watched is
  ignored. Otherwise acceptance is attempted: a report without observer,
  subject or observation fails; any other is placed in the observer's view by
  timestamp, and the oldest observation is dropped when the view exceeds its
  bound.
\<close>

definition AddReport :: "storage \<Rightarrow> report \<Rightarrow> bool \<Rightarrow> accept_code \<times> string option \<times> storage" where
  "AddReport st r flt =
     (if flt \<and> Watchlist st (Subject r) = None then (REPORT_IGNORED, None, st)
      else
        (case Observation r of
           None \<Rightarrow> (REPORT_FAILED, Some ''malformed report'', st)
         | Some ob \<Rightarrow>
             if Observer r = [] \<or> Subject r = [] then (REPORT_FAILED, Some ''malformed report'', st)
             else
               let pano = (case map_of (Tenants st) (Subject r) of None \<Rightarrow> [] | Some p \<Rightarrow> p);
                   v = (case map_of pano (Observer r) of None \<Rightarrow> [] | Some w \<Rightarrow> w);
                   v1 = insort_key Ts ob v;
                   v2 = (if view_bound st < length v1 then tl v1 else v1)
               in (REPORT_ACCEPTED, None,
                   st\<lparr>Tenants := AList.update (Subject r) (AList.update (Observer r) v2 pano) (Tenants st)\<rparr>)))"

text \<open>Modelled from the spec: the most recent observation across all observers.\<close>

fun latest :: "(string \<times> observation) list \<Rightarrow> (string \<times> observation) option" where
  "latest [] = None"
| "latest (x # xs) =
     (case latest xs of
        None \<Rightarrow> Some x
      | Some y \<Rightarrow> if Ts (snd x) < Ts (snd y) then Some y else Some x)"

text \<open>Modelled from the spec: \<open>GetLatestReport\<close> of the store, nil if there is no observation about the subject.\<close>

definition store_GetLatestReport :: "storage \<Rightarrow> string \<Rightarrow> report option" where
  "store_GetLatestReport st subject =
     (case map_of (Tenants st) subject of
        None \<Rightarrow> None
      | Some pano \<Rightarrow>
          (case latest (map (\<lambda>(observer, v). (observer, last v)) (filter (\<lambda>(observer, v). v \<noteq> []) pano)) of
             None \<Rightarrow> None
           | Some (observer, ob) \<Rightarrow>
               Some \<lparr>Observer = observer, Subject = subject, Observation = Some ob\<rparr>))"

text \<open>Modelled from the spec: the full panorama, nil if the subject is unknown.\<close>

definition store_GetPanorama :: "storage \<Rightarrow> string \<Rightarrow> panorama option" where
  "store_GetPanorama st subject = map_of (Tenants st) subject"

text \<open>Modelled from the spec: one observer's view, nil if unknown.\<close>

definition store_GetView :: "storage \<Rightarrow> string \<Rightarrow> string \<Rightarrow> view option" where
  "store_GetView st subject observer =
     (case map_of (Tenants st) subject of
        None \<Rightarrow> None
      | Some pano \<Rightarrow> map_of pano observer)"

text \<open>
  Modelled from the spec: garbage collection drops the leading observations
  of each view that are older than the cutoff (the view's latest timestamp
  minus the threshold when relative, the wall clock minus the threshold
  otherwise), removes the views it empties, keeps empty panoramas and returns
  the number of retired observations of each subject that has some.
\<close>

definition gc_view :: "duration \<Rightarrow> bool \<Rightarrow> instant \<Rightarrow> view \<Rightarrow> view" where
  "gc_view threshold relative now v =
     (if v = [] then []
      else dropWhile (\<lambda>ob. Ts ob < (if relative then Ts (last v) else now) - threshold) v)"

text \<open>Modelled from the spec: the number of observations retired in a panorama, and the panorama without them and without the views left empty.\<close>

definition gc_panorama :: "duration \<Rightarrow> bool \<Rightarrow> instant \<Rightarrow> panorama \<Rightarrow> nat \<times> panorama" where
  "gc_panorama threshold relative now pano =
     (sum_list (map (\<lambda>(observer, v). length v - length (gc_view threshold relative now v)) pano),
      filter (\<lambda>(observer, v). v \<noteq> [])
        (map (\<lambda>(observer, v). (observer, gc_view threshold relative now v)) pano))"

text \<open>Modelled from the spec: \<open>GC\<close> of the store, the retired counts of the subjects that have some and the store after the collection.\<close>

definition store_GC :: "storage \<Rightarrow> duration \<Rightarrow> bool \<Rightarrow> instant \<Rightarrow> (string \<times> nat) list \<times> storage" where
  "store_GC st threshold relative now =
     (filter (\<lambda>(subject, n). 0 < n)
        (map (\<lambda>(subject, pano). (subject, fst (gc_panorama threshold relative now pano))) (Tenants st)),
      st\<lparr>Tenants := map (\<lambda>(subject, pano). (subject, snd (gc_panorama threshold relative now pano))) (Tenants st)\<rparr>)"

text \<open>Modelled from the spec: \<open>SetDB\<close> installs the persistence sink.\<close>

definition store_SetDB :: "storage \<Rightarrow> storage" where
  "store_SetDB st = st\<lparr>st_sink := True\<rparr>"

subsection \<open>The hold buffer\<close>

text \<open>
  Modelled from the spec: \<open>store.CacheList\<close>, a cache from a key to a list of
  entries stamped with their insertion time. \<open>Set\<close> inserts, evicting expired
  entries and then the oldest entries beyond the length bound; \<open>Get\<close> returns
  the entries that have not expired and removes nothing; \<open>Empty\<close> clears the
  key.
\<close>

record CacheList =
  cl_ttl :: duration
  cl_max_len :: int
  cl_items :: "string \<rightharpoonup> (instant \<times> report) list"

text \<open>Modelled from the spec: an empty cache with the given TTL and length bound.\<close>

definition NewCacheList :: "duration \<Rightarrow> int \<Rightarrow> CacheList" where
  "NewCacheList ttl max_len = \<lparr>cl_ttl = ttl, cl_max_len = max_len, cl_items = Map.empty\<rparr>"

text \<open>Modelled from the spec: an entry expires once the TTL has passed since its insertion.\<close>

definition unexpired :: "CacheList \<Rightarrow> instant \<Rightarrow> instant \<times> report \<Rightarrow> bool" where
  "unexpired cl now e = (now - fst e < cl_ttl cl)"

text \<open>Modelled from the spec: \<open>Get\<close> returns the unexpired entries of the key and removes nothing.\<close>

definition CacheList_Get :: "CacheList \<Rightarrow> instant \<Rightarrow> string \<Rightarrow> (instant \<times> report) list" where
  "CacheList_Get cl now key =
     (case cl_items cl key of None \<Rightarrow> [] | Some es \<Rightarrow> filter (unexpired cl now) es)"

text \<open>Modelled from the spec: \<open>Set\<close> appends the entry to the unexpired ones and keeps the newest up to the length bound.\<close>

definition CacheList_Set :: "CacheList \<Rightarrow> instant \<Rightarrow> string \<Rightarrow> report \<Rightarrow> CacheList" where
  "CacheList_Set cl now key v =
     (let es = filter (unexpired cl now) (case cl_items cl key of None \<Rightarrow> [] | Some es \<Rightarrow> es) @ [(now, v)]
      in cl\<lparr>cl_items := (cl_items cl)(key \<mapsto> drop (length es - nat (cl_max_len cl)) es)\<rparr>)"

text \<open>Modelled from the spec: \<open>Empty\<close> clears the list of the key.\<close>

definition CacheList_Empty :: "CacheList \<Rightarrow> string \<Rightarrow> CacheList" where
  "CacheList_Empty cl key = cl\<lparr>cl_items := (cl_items cl)(key := None)\<rparr>"

subsection \<open>Inference, exchange and database\<close>

text \<open>
  Modelled from the spec: the inference engine as seen by the front-end, a
  worker that is running or not, the queue of subjects waiting for
  recomputation and the inferences computed so far.
\<close>

record inference =
  inf_running :: bool
  inf_queue :: "string list"
  inf_results :: "string \<rightharpoonup> inference_result"
  inf_sink :: bool

text \<open>Modelled from the spec: a new inference store, not running, with nothing queued or inferred.\<close>

definition NewHealthInferenceStorage :: inference where
  "NewHealthInferenceStorage =
     \<lparr>inf_running = False, inf_queue = [], inf_results = Map.empty, inf_sink = False\<rparr>"

text \<open>Modelled from the spec: \<open>Start\<close> and \<open>Stop\<close> boot and end the worker; \<open>SetDB\<close> installs the sink.\<close>

definition infer_Start :: "inference \<Rightarrow> inference" where
  "infer_Start i = i\<lparr>inf_running := True\<rparr>"

definition infer_Stop :: "inference \<Rightarrow> inference" where
  "infer_Stop i = i\<lparr>inf_running := False\<rparr>"

definition infer_SetDB :: "inference \<Rightarrow> inference" where
  "infer_SetDB i = i\<lparr>inf_sink := True\<rparr>"

text \<open>Modelled from the spec: \<open>InferReportAsync\<close> and \<open>InferSubjectAsync\<close> enqueue a recomputation for the subject.\<close>

definition InferReportAsync :: "inference \<Rightarrow> report \<Rightarrow> inference" where
  "InferReportAsync i r = i\<lparr>inf_queue := inf_queue i @ [Subject r]\<rparr>"

definition InferSubjectAsync :: "inference \<Rightarrow> string \<Rightarrow> inference" where
  "InferSubjectAsync i subject = i\<lparr>inf_queue := inf_queue i @ [subject]\<rparr>"

text \<open>Modelled from the spec: \<open>GetInference\<close>, nil if the subject has no inference.\<close>

definition infer_GetInference :: "inference \<Rightarrow> string \<Rightarrow> inference_result option" where
  "infer_GetInference i subject = inf_results i subject"

text \<open>
  Modelled from the spec: the exchange keeps which peer is interested in
  which subject; its sends to peers are effects of the server (below).
\<close>

record exchange =
  ex_interest :: "(string \<times> string) set"

text \<open>Modelled from the spec: a new exchange knows no interested peer; \<open>Interested\<close> and \<open>Uninterested\<close> mark and unmark a peer for a subject.\<close>

definition NewExchangeProtocol :: exchange where
  "NewExchangeProtocol = \<lparr>ex_interest = {}\<rparr>"

definition Interested :: "exchange \<Rightarrow> string \<Rightarrow> string \<Rightarrow> exchange" where
  "Interested ex peer_id subject = ex\<lparr>ex_interest := insert (peer_id, subject) (ex_interest ex)\<rparr>"

definition Uninterested :: "exchange \<Rightarrow> string \<Rightarrow> string \<Rightarrow> exchange" where
  "Uninterested ex peer_id subject = ex\<lparr>ex_interest := ex_interest ex - {(peer_id, subject)}\<rparr>"

text \<open>
  Modelled from the spec: the persistence sink, by the interface the
  front-end uses: open, close, insert a registration. Whether opening
  succeeds and which registrations the file holds are inputs of \<open>Start\<close>.
\<close>

record healthdb =
  db_file :: string
  db_opened :: bool
  db_inserted :: "registration list"

text \<open>Modelled from the spec: a database that is not yet open; \<open>Open\<close>, \<open>Close\<close> and \<open>InsertRegistration\<close>.\<close>

definition NewHealthDBStorage :: "string \<Rightarrow> healthdb" where
  "NewHealthDBStorage file = \<lparr>db_file = file, db_opened = False, db_inserted = []\<rparr>"

definition db_Open :: "bool \<Rightarrow> healthdb \<Rightarrow> healthdb" where
  "db_Open ok d = (if ok then d\<lparr>db_opened := True\<rparr> else d)"

definition db_Close :: "healthdb \<Rightarrow> healthdb" where
  "db_Close d = d\<lparr>db_opened := False\<rparr>"

definition InsertRegistration :: "healthdb \<Rightarrow> registration \<Rightarrow> healthdb" where
  "InsertRegistration d r = d\<lparr>db_inserted := db_inserted d @ [r]\<rparr>"

subsection \<open>The server\<close>

text \<open>
  Goroutines started with \<open>go\<close> and calls that only reach the network are
  recorded in the order the handler issues them.
\<close>

datatype effect =
    GoServe
  | GoGC
  | GoAnalyzeReport report bool
  | GoPropagate report
  | GoSubscribe string
  | GoUnsubscribe string
  | PingAll
  | ServerStop bool

datatype listener = Listener string

datatype grpc_server = GrpcServer

text \<open>
  \<open>HealthGServer\<close>. The fields \<open>l\<close> and \<open>s\<close> of the source are \<open>lis\<close> and
  \<open>srv\<close> here, and the mutex has no counterpart: every handler is one
  function of the server. The package variables \<open>gc_frequency\<close>,
  \<open>gc_threshold\<close> and \<open>gc_relative\<close> are carried with the server;
  \<open>NewHealthGServer\<close> receives the values they have when it is called.
\<close>

record gc_vars =
  gc_frequency :: duration
  gc_threshold :: duration
  gc_relative :: bool

definition initial_gc_vars :: gc_vars where
  "initial_gc_vars = \<lparr>gc_frequency = 0, gc_threshold = 0, gc_relative = GC_RELATIVE\<rparr>"

record HealthGServer =
  config :: HealthServerConfig
  storage :: storage
  db :: "healthdb option"
  inference :: inference
  exchange :: exchange
  hold_buffer :: CacheList
  old_registrations :: "(handle \<rightharpoonup> registration) option"
  registrations :: "handle \<rightharpoonup> registration"
  next_handle :: handle
  lis :: "listener option"
  srv :: "grpc_server option"
  vars :: gc_vars
  effects :: "effect list"

definition NewHealthGServer :: "gc_vars \<Rightarrow> nat \<Rightarrow> instant \<Rightarrow> HealthServerConfig \<Rightarrow> HealthGServer" where
  "NewHealthGServer g bound now cfg =
     \<lparr>config = cfg,
      storage = NewRawHealthStorage bound now (Subjects cfg),
      db = None,
      inference = NewHealthInferenceStorage,
      exchange = NewExchangeProtocol,
      hold_buffer =
        (if 0 < HoldTime (cfg_BufConfig cfg)
         then NewCacheList (wrap64 (HoldTime (cfg_BufConfig cfg) * Second)) (HoldListLen (cfg_BufConfig cfg))
         else NewCacheList HOLD_TIME HOLD_LIST_LEN),
      old_registrations = None,
      registrations = Map.empty,
      next_handle = HANDLE_START,
      lis = None,
      srv = None,
      vars =
        (if Enable (cfg_GCConfig cfg)
         then
           (if 0 < Frequency (cfg_GCConfig cfg)
            then \<lparr>gc_frequency = wrap64 (Frequency (cfg_GCConfig cfg) * Second),
                  gc_threshold = wrap64 (Threshold (cfg_GCConfig cfg) * Second),
                  gc_relative = Relative (cfg_GCConfig cfg)\<rparr>
            else \<lparr>gc_frequency = GC_FREQUENCY, gc_threshold = GC_THRESHOLD,
                  gc_relative = Relative (cfg_GCConfig cfg)\<rparr>)
         else g),
      effects = []\<rparr>"

subsection \<open>Registration\<close>

text \<open>
  The loop of \<open>Register\<close> over the registration map. Go ranges over a map in
  an order of its own choosing, so the order \<open>ks\<close> in which the handles are
  visited is an argument. The loop returns early (\<open>Inl\<close>) at the first
  registration with the requested module and observer; otherwise it ends
  (\<open>Inr\<close>) with the largest handle it has seen.
\<close>

fun scan_registrations ::
  "(handle \<rightharpoonup> registration) \<Rightarrow> string \<Rightarrow> string \<Rightarrow> handle list \<Rightarrow> handle \<Rightarrow> handle + handle" where
  "scan_registrations regs m ob [] max_handle = Inr max_handle"
| "scan_registrations regs m ob (h # hs) max_handle =
     (case regs h of
        None \<Rightarrow> scan_registrations regs m ob hs max_handle
      | Some r \<Rightarrow>
          if reg_Module r = m \<and> reg_Observer r = ob then Inl h
          else scan_registrations regs m ob hs (if max_handle < h then h else max_handle))"

definition Register ::
  "HealthGServer \<Rightarrow> instant \<Rightarrow> handle list \<Rightarrow> RegisterRequest \<Rightarrow> RegisterReply \<times> HealthGServer" where
  "Register self now ks req =
     (case scan_registrations (registrations self) (req_Module req) (req_Observer req) ks 0 of
        Inl h \<Rightarrow> (\<lparr>Handle = h\<rparr>, self)
      | Inr seen \<Rightarrow>
          let max_handle = (if seen < next_handle self then next_handle self else seen + 1);
              registration = \<lparr>reg_Module = req_Module req, reg_Observer = req_Observer req,
                              reg_Handle = max_handle, reg_Time = now\<rparr>
          in (\<lparr>Handle = max_handle\<rparr>,
              self\<lparr>storage := snd (AddSubject (storage self) (req_Observer req) now),
                   registrations := (registrations self)(max_handle \<mapsto> registration),
                   db := map_option (\<lambda>d. InsertRegistration d registration) (db self),
                   next_handle := max_handle + 1\<rparr>))"

text \<open>An iteration order of a map visits each of its keys once.\<close>

definition range_order :: "('k \<rightharpoonup> 'v) \<Rightarrow> 'k list \<Rightarrow> bool" where
  "range_order m ks = (set ks = dom m \<and> distinct ks)"

subsection \<open>Submitting and learning reports\<close>

text \<open>\<open>pb.SubmitReportReply\<close> and \<open>pb.LearnReportReply\<close> carry one status.\<close>

record status_reply =
  Result :: reply_status

text \<open>
  The second half of \<open>SubmitReport\<close>, after the handle has been validated:
  the report is added with the filter off, and an accepted report is handed
  to \<open>AnalyzeReport\<close> (with \<open>check_hold\<close> set) and to the exchange, each in
  its own goroutine. Reading \<open>report.Subject\<close> of a nil report panics.
\<close>

definition ingest_local :: "HealthGServer \<Rightarrow> SubmitReportRequest \<Rightarrow> status_reply outcome \<times> HealthGServer" where
  "ingest_local self req =
     (case sub_Report req of
        None \<Rightarrow> (Panic, self)
      | Some report \<Rightarrow>
          (case AddReport (storage self) report False of
             (REPORT_IGNORED, err, st) \<Rightarrow>
               (Return None (Some ''Should not ignore local report. Probably due to a bug''),
                self\<lparr>storage := st\<rparr>)
           | (REPORT_FAILED, err, st) \<Rightarrow>
               (Return (Some \<lparr>Result = FAILED\<rparr>) err, self\<lparr>storage := st\<rparr>)
           | (REPORT_ACCEPTED, err, st) \<Rightarrow>
               (Return (Some \<lparr>Result = ACCEPTED\<rparr>) err,
                self\<lparr>storage := st,
                     effects := effects self @ [GoAnalyzeReport report True, GoPropagate report]\<rparr>)))"

definition invalid_handle :: "status_reply outcome" where
  "invalid_handle = Return None (Some ''Invalid submission handle'')"

definition SubmitReport ::
  "HealthGServer \<Rightarrow> instant \<Rightarrow> SubmitReportRequest \<Rightarrow> status_reply outcome \<times> HealthGServer" where
  "SubmitReport self now req =
     (case registrations self (sub_Handle req) of
        Some reg \<Rightarrow> ingest_local self req
      | None \<Rightarrow>
          (case old_registrations self of
             None \<Rightarrow> (invalid_handle, self)
           | Some old \<Rightarrow>
               (case old (sub_Handle req) of
                  None \<Rightarrow> (invalid_handle, self)
                | Some old_reg \<Rightarrow>
                    (case sub_Report req of
                       None \<Rightarrow> (Panic, self)
                     | Some report \<Rightarrow>
                         if reg_Observer old_reg = Observer report
                         then ingest_local
                                (self\<lparr>registrations := (registrations self)(sub_Handle req \<mapsto> old_reg),
                                      storage := snd (AddSubject (storage self) (reg_Observer old_reg) now)\<rparr>)
                                req
                         else (invalid_handle, self)))))"

text \<open>
  \<open>LearnReport\<close>. Each of the three known kinds logs fields of the report
  and of the source first, which panics when either pointer is nil; any other
  kind falls out of the switch.
\<close>

definition LearnReport ::
  "HealthGServer \<Rightarrow> instant \<Rightarrow> LearnReportRequest \<Rightarrow> status_reply outcome \<times> HealthGServer" where
  "LearnReport self now req =
     (case Kind req of
        NORMAL \<Rightarrow>
          (case (Report req, Source req) of
             (Some report, Some source) \<Rightarrow>
               (case AddReport (storage self) report (FilterSubmission (config self)) of
                  (REPORT_IGNORED, err, st) \<Rightarrow>
                    (Return (Some \<lparr>Result = IGNORED\<rparr>) err,
                     self\<lparr>storage := st,
                          hold_buffer := CacheList_Set (hold_buffer self) now (Subject report) report\<rparr>)
                | (REPORT_FAILED, err, st) \<Rightarrow>
                    (Return (Some \<lparr>Result = FAILED\<rparr>) err, self\<lparr>storage := st\<rparr>)
                | (REPORT_ACCEPTED, err, st) \<Rightarrow>
                    (Return (Some \<lparr>Result = ACCEPTED\<rparr>) err,
                     self\<lparr>storage := st,
                          exchange := Interested (exchange self) (Id source) (Subject report),
                          effects := effects self @ [GoAnalyzeReport report False]\<rparr>))
           | _ \<Rightarrow> (Panic, self))
      | SUBSCRIPTION \<Rightarrow>
          (case (Report req, Source req) of
             (Some report, Some source) \<Rightarrow>
               (Return (Some \<lparr>Result = ACCEPTED\<rparr>) None,
                self\<lparr>exchange := Interested (exchange self) (Id source) (Subject report)\<rparr>)
           | _ \<Rightarrow> (Panic, self))
      | UNSUBSCRIPTION \<Rightarrow>
          (case (Report req, Source req) of
             (Some report, Some source) \<Rightarrow>
               (Return (Some \<lparr>Result = ACCEPTED\<rparr>) None,
                self\<lparr>exchange := Uninterested (exchange self) (Id source) (Subject report)\<rparr>)
           | _ \<Rightarrow> (Panic, self))
      | OTHER_KIND \<Rightarrow> (Return (Some \<lparr>Result = FAILED\<rparr>) None, self))"

text \<open>
  \<open>AnalyzeReport\<close>, the body of the goroutine. With \<open>check_hold\<close>, the
  unexpired reports held for the subject are added back to the store with the
  filter off (an error is only logged), the subject is emptied in the hold
  buffer and a subscription is sent; all three only when there is such a
  report. The report is then sent for inference.
\<close>

definition AnalyzeReport :: "HealthGServer \<Rightarrow> instant \<Rightarrow> report \<Rightarrow> bool \<Rightarrow> HealthGServer" where
  "AnalyzeReport self now report check_hold =
     (let items = (if check_hold then CacheList_Get (hold_buffer self) now (Subject report) else []);
          self1 =
            (if items \<noteq> []
             then self\<lparr>storage := foldl (\<lambda>st item. snd (snd (AddReport st (snd item) False))) (storage self) items,
                       hold_buffer := CacheList_Empty (hold_buffer self) (Subject report),
                       effects := effects self @ [GoSubscribe (Subject report)]\<rparr>
             else self)
      in self1\<lparr>inference := InferReportAsync (inference self1) report\<rparr>)"

subsection \<open>Observing and querying\<close>

record ObserveReply =
  Success :: bool

definition Observe :: "HealthGServer \<Rightarrow> instant \<Rightarrow> string \<Rightarrow> ObserveReply \<times> HealthGServer" where
  "Observe self now subject =
     (case AddSubject (storage self) subject now of
        (ok, st) \<Rightarrow>
          (\<lparr>Success = ok\<rparr>, self\<lparr>storage := st, effects := effects self @ [GoSubscribe subject]\<rparr>))"

definition GetLatestReport :: "HealthGServer \<Rightarrow> string \<Rightarrow> report outcome" where
  "GetLatestReport self subject =
     (case store_GetLatestReport (storage self) subject of
        None \<Rightarrow> Return None (Some (''No report for '' @ subject))
      | Some report \<Rightarrow> Return (Some report) None)"

definition GetPanorama :: "HealthGServer \<Rightarrow> string \<Rightarrow> panorama outcome" where
  "GetPanorama self subject =
     (case store_GetPanorama (storage self) subject of
        None \<Rightarrow> Return None (Some (''No panorama for '' @ subject))
      | Some pano \<Rightarrow> Return (Some pano) None)"

definition GetView :: "HealthGServer \<Rightarrow> string \<Rightarrow> string \<Rightarrow> view outcome" where
  "GetView self subject observer =
     (case store_GetView (storage self) subject observer of
        None \<Rightarrow> Return None (Some (''No view for '' @ subject))
      | Some v \<Rightarrow> Return (Some v) None)"

definition GetInference :: "HealthGServer \<Rightarrow> string \<Rightarrow> inference_result outcome" where
  "GetInference self subject =
     (case infer_GetInference (inference self) subject of
        None \<Rightarrow> Return None (Some ''inference does not exist for view'')
      | Some i \<Rightarrow> Return (Some i) None)"

subsection \<open>Lifecycle\<close>

text \<open>
  What \<open>Start\<close> finds outside the server: whether the address can be listened
  on, whether the database opens, and the registrations the database returns
  (a nil map when it cannot read them).
\<close>

record start_env =
  listen_ok :: bool
  open_ok :: bool
  stored_registrations :: "(handle \<rightharpoonup> registration) option"

definition already_started :: string where
  "already_started = ''HealthGServer is already started'' @ [CHR 0x0A]"

definition not_started :: string where
  "not_started = ''HealthGServer has not started'' @ [CHR 0x0A]"

definition Start :: "HealthGServer \<Rightarrow> start_env \<Rightarrow> string option \<times> HealthGServer" where
  "Start self env =
     (if srv self \<noteq> None then (Some already_started, self)
      else if \<not> listen_ok env
      then (Some (''Fail to register RPC server at '' @ cfg_Addr (config self) @ [CHR 0x0A]), self)
      else
        let self1 = self\<lparr>lis := Some (Listener (cfg_Addr (config self))), srv := Some GrpcServer,
                         effects := effects self @ [GoServe],
                         db := Some (db_Open (open_ok env)
                                 (NewHealthDBStorage
                                    (if 0 < length (DBFile (config self)) then DBFile (config self)
                                     else DEFAULT_DBFILE)))\<rparr>;
            self2 = (if open_ok env
                     then self1\<lparr>storage := store_SetDB (storage self1),
                                inference := infer_SetDB (inference self1),
                                old_registrations := stored_registrations env\<rparr>
                     else self1);
            self3 = self2\<lparr>inference := infer_Start (inference self2),
                          effects := effects self2 @ [PingAll]\<rparr>
        in (None, if 0 < gc_frequency (vars self3) then self3\<lparr>effects := effects self3 @ [GoGC]\<rparr> else self3))"

definition Stop :: "HealthGServer \<Rightarrow> bool \<Rightarrow> string option \<times> HealthGServer" where
  "Stop self graceful =
     (if srv self = None then (Some not_started, self)
      else (None,
            self\<lparr>effects := effects self @ [ServerStop graceful], srv := None, lis := None,
                 inference := infer_Stop (inference self),
                 db := map_option db_Close (db self)\<rparr>))"

subsection \<open>The garbage-collection loop\<close>

text \<open>
  The goroutine \<open>GC\<close> is at its loop guard, asleep until an instant, or has
  left the loop. One step of it: at the guard it tests the server handle and
  either goes to sleep for \<open>gc_frequency\<close> or leaves; when the sleep is over
  it runs one round and is back at the guard. Other goroutines (a \<open>Stop\<close>,
  say) act on the server between two steps.
\<close>

datatype gc_pc = AtGuard | Sleeping instant | Exited

text \<open>
  One round: the store's \<open>GC\<close> with the threshold and the relative flag of
  the package variables, then \<open>InferSubjectAsync\<close> for each key of the map of
  retired counts, in the order \<open>ks\<close> Go ranges over that map.
\<close>

definition GC_round :: "HealthGServer \<Rightarrow> instant \<Rightarrow> string list \<Rightarrow> HealthGServer" where
  "GC_round self now ks =
     (case store_GC (storage self) (gc_threshold (vars self)) (gc_relative (vars self)) now of
        (retired, st) \<Rightarrow>
          self\<lparr>storage := st,
               inference :=
                 foldl (\<lambda>i subject. case map_of retired subject of
                                       None \<Rightarrow> i
                                     | Some r \<Rightarrow> InferSubjectAsync i subject)
                   (inference self) ks\<rparr>)"

fun GC_step :: "instant \<Rightarrow> string list \<Rightarrow> gc_pc \<times> HealthGServer \<Rightarrow> gc_pc \<times> HealthGServer" where
  "GC_step now ks (AtGuard, self) =
     (if srv self \<noteq> None then (Sleeping (now + gc_frequency (vars self)), self) else (Exited, self))"
| "GC_step now ks (Sleeping until, self) =
     (if now < until then (Sleeping until, self) else (AtGuard, GC_round self now ks))"
| "GC_step now ks (Exited, self) = (Exited, self)"

subsection \<open>The registry invariant\<close>

text \<open>For the proofs: a registration answers a request; the registry invariant.\<close>

definition matches :: "registration \<Rightarrow> RegisterRequest \<Rightarrow> bool" where
  "matches r req = (reg_Module r = req_Module req \<and> reg_Observer r = req_Observer req)"

definition registry_inv :: "HealthGServer \<Rightarrow> bool" where
  "registry_inv self =
     ((\<forall>h r. registrations self h = Some r \<longrightarrow> h < next_handle self) \<and>
      (\<forall>h h' r r'. registrations self h = Some r \<longrightarrow> registrations self h' = Some r' \<longrightarrow>
         reg_Module r = reg_Module r' \<longrightarrow> reg_Observer r = reg_Observer r' \<longrightarrow> h = h'))"

subsection \<open>Sample configurations and servers\<close>

definition demo_config :: HealthServerConfig where
  "demo_config =
     \<lparr>cfg_Id = ''A'', cfg_Addr = ''localhost:6688'', Peers = [(''A'', ''localhost:6688'')],
      Subjects = [''db''], FilterSubmission = True, DBFile = [],
      cfg_GCConfig = \<lparr>Enable = False, Frequency = 0, Threshold = 0, Relative = False\<rparr>,
      cfg_BufConfig = \<lparr>HoldTime = 0, HoldListLen = 0\<rparr>\<rparr>"

definition demo_server :: HealthGServer where
  "demo_server = NewHealthGServer initial_gc_vars 10 0 demo_config"

definition demo_request :: RegisterRequest where
  "demo_request = \<lparr>req_Module = ''mod'', req_Observer = ''obs1''\<rparr>"

definition registered_server :: HealthGServer where
  "registered_server = snd (Register demo_server 5 [] demo_request)"

definition persisted_registrations :: "handle \<rightharpoonup> registration" where
  "persisted_registrations =
     [10000 \<mapsto> \<lparr>reg_Module = ''mod'', reg_Observer = ''obs1'', reg_Handle = 10000, reg_Time = 5\<rparr>]"

definition demo_env :: start_env where
  "demo_env = \<lparr>listen_ok = True, open_ok = True, stored_registrations = Some persisted_registrations\<rparr>"

definition restarted_server :: HealthGServer where
  "restarted_server = snd (Start demo_server demo_env)"

definition demo_report :: report where
  "demo_report =
     \<lparr>Observer = ''obs1'', Subject = ''db'',
      Observation = Some \<lparr>Ts = 10, Metrics = [\<lparr>Name = ''cpu'', Status = HEALTHY, Score = 90\<rparr>]\<rparr>\<rparr>"

definition peer_B :: peer where
  "peer_B = \<lparr>Id = ''B'', Addr = ''localhost:6689''\<rparr>"

definition learn_request :: "report \<Rightarrow> LearnReportRequest" where
  "learn_request r = \<lparr>Kind = NORMAL, Source = Some peer_B, Report = Some r\<rparr>"

definition web_report :: report where
  "web_report =
     \<lparr>Observer = ''obs2'', Subject = ''web'',
      Observation = Some \<lparr>Ts = 15, Metrics = [\<lparr>Name = ''cpu'', Status = UNHEALTHY, Score = 30\<rparr>]\<rparr>\<rparr>"

definition submit_request :: SubmitReportRequest where
  "submit_request = \<lparr>sub_Handle = 10000, sub_Report = Some demo_report\<rparr>"

definition reported_server :: HealthGServer where
  "reported_server = snd (SubmitReport registered_server 20 submit_request)"

definition held_server :: HealthGServer where
  "held_server = snd (LearnReport demo_server 20 (learn_request web_report))"

definition local_web_report :: report where
  "local_web_report =
     \<lparr>Observer = ''obs1'', Subject = ''web'',
      Observation = Some \<lparr>Ts = 38, Metrics = [\<lparr>Name = ''cpu'', Status = HEALTHY, Score = 80\<rparr>]\<rparr>\<rparr>"

definition gc_config :: HealthServerConfig where
  "gc_config =
     demo_config\<lparr>cfg_GCConfig := \<lparr>Enable = True, Frequency = 0, Threshold = 0, Relative = False\<rparr>\<rparr>"

definition gc_server :: HealthGServer where
  "gc_server =
     snd (Start
       (snd (SubmitReport (snd (Register (NewHealthGServer initial_gc_vars 10 0 gc_config) 5 [] demo_request))
          20 submit_request))
       demo_env)"

subsection \<open>Runs of the server\<close>

text \<open>
  A run is a sequence of calls on the server: the handlers that change it,
  each with the time of the call where it reads the clock, and the two
  goroutine bodies \<open>AnalyzeReport\<close> and one round of \<open>GC\<close>. \<open>Register\<close> and
  a round of \<open>GC\<close> carry the order in which Go ranges over the map in that
  call. The queries leave the server as it is and are not listed.
\<close>

datatype call =
    Call_Register instant "handle list" RegisterRequest
  | Call_SubmitReport instant SubmitReportRequest
  | Call_LearnReport instant LearnReportRequest
  | Call_Observe instant string
  | Call_Start start_env
  | Call_Stop bool
  | Run_AnalyzeReport instant report bool
  | Run_GC_round instant "string list"

text \<open>The server after a call.\<close>

fun after :: "HealthGServer \<Rightarrow> call \<Rightarrow> HealthGServer" where
  "after self (Call_Register now ks req) = snd (Register self now ks req)"
| "after self (Call_SubmitReport now req) = snd (SubmitReport self now req)"
| "after self (Call_LearnReport now req) = snd (LearnReport self now req)"
| "after self (Call_Observe now subject) = snd (Observe self now subject)"
| "after self (Call_Start env) = snd (Start self env)"
| "after self (Call_Stop graceful) = snd (Stop self graceful)"
| "after self (Run_AnalyzeReport now report check_hold) = AnalyzeReport self now report check_hold"
| "after self (Run_GC_round now ks) = GC_round self now ks"

text \<open>The requests of the \<open>Register\<close> calls of a run with the handles returned, in call order.\<close>

fun run_calls :: "HealthGServer \<Rightarrow> call list \<Rightarrow> (RegisterRequest \<times> handle) list" where
  "run_calls self [] = []"
| "run_calls self (Call_Register now ks req # calls) =
     (req, Handle (fst (Register self now ks req))) #
     run_calls (after self (Call_Register now ks req)) calls"
| "run_calls self (c # calls) = run_calls (after self c) calls"

text \<open>
  A \<open>SubmitReport\<close> restores an old registration when its handle is not
  active, the old registrations hold it and the observers agree: the branch
  of \<open>SubmitReport\<close> that writes to the registration map.
\<close>

definition restores :: "HealthGServer \<Rightarrow> SubmitReportRequest \<Rightarrow> bool" where
  "restores self req =
     (case registrations self (sub_Handle req) of
        Some reg \<Rightarrow> False
      | None \<Rightarrow>
          (case old_registrations self of
             None \<Rightarrow> False
           | Some old \<Rightarrow>
               (case old (sub_Handle req) of
                  None \<Rightarrow> False
                | Some old_reg \<Rightarrow>
                    (case sub_Report req of
                       None \<Rightarrow> False
                     | Some report \<Rightarrow> reg_Observer old_reg = Observer report))))"

text \<open>
  The runs considered: each \<open>Register\<close> ranges over the keys the registration
  map has at that call, and no \<open>SubmitReport\<close> restores an old registration.
\<close>

fun call_ok :: "HealthGServer \<Rightarrow> call \<Rightarrow> bool" where
  "call_ok self (Call_Register now ks req) = range_order (registrations self) ks"
| "call_ok self (Call_SubmitReport now req) = (\<not> restores self req)"
| "call_ok self c = True"

fun calls_ok :: "HealthGServer \<Rightarrow> call list \<Rightarrow> bool" where
  "calls_ok self [] = True"
| "calls_ok self (c # calls) = (call_ok self c \<and> calls_ok (after self c) calls)"

text \<open>Sample runs.\<close>

definition demo_calls :: "call list" where
  "demo_calls =
     [Call_Start demo_env,
      Call_Register 5 [] \<lparr>req_Module = ''mod'', req_Observer = ''obs1''\<rparr>,
      Call_Observe 6 ''web'',
      Call_Register 7 [10000] \<lparr>req_Module = ''mod2'', req_Observer = ''obs2''\<rparr>,
      Call_SubmitReport 20 submit_request,
      Call_Register 30 [10001, 10000] \<lparr>req_Module = ''mod'', req_Observer = ''obs1''\<rparr>]"

definition race_env :: start_env where
  "race_env =
     \<lparr>listen_ok = True, open_ok = True,
      stored_registrations =
        Some [10003 \<mapsto> \<lparr>reg_Module = ''mod'', reg_Observer = ''obs1'', reg_Handle = 10003, reg_Time = 5\<rparr>]\<rparr>"

definition race_calls :: "call list" where
  "race_calls =
     [Call_Start race_env,
      Call_Register 5 [] demo_request,
      Call_SubmitReport 20 \<lparr>sub_Handle = 10003, sub_Report = Some demo_report\<rparr>,
      Call_Register 30 [10003, 10000] demo_request]"

section \<open>Properties\<close>

subsection \<open>The registration scan\<close>

lemma scan_registrations_Inl:
  "scan_registrations regs m ob ks mx = Inl h \<Longrightarrow>
   h \<in> set ks \<and> (\<exists>r. regs h = Some r \<and> reg_Module r = m \<and> reg_Observer r = ob)"
  by (induction ks arbitrary: mx) (auto split: option.splits if_splits)

lemma scan_registrations_match:
  "h \<in> set ks \<Longrightarrow> regs h = Some r \<Longrightarrow> reg_Module r = m \<Longrightarrow> reg_Observer r = ob \<Longrightarrow>
   \<exists>h'. scan_registrations regs m ob ks mx = Inl h'"
  by (induction ks arbitrary: mx) (auto split: option.splits if_splits)

lemma scan_registrations_no_match:
  "\<forall>h\<in>set ks. \<forall>r. regs h = Some r \<longrightarrow> \<not> (reg_Module r = m \<and> reg_Observer r = ob) \<Longrightarrow>
   \<exists>seen. scan_registrations regs m ob ks mx = Inr seen"
  by (induction ks arbitrary: mx) (auto split: option.splits if_splits)

lemma AddSubject_watched: "subject \<in> dom (Watchlist (snd (AddSubject st subject now)))"
  by (auto simp: AddSubject_def split: option.splits)

subsection \<open>The hold buffer of a new server\<close>

text \<open>
  Claim C8, as stated, fails when only one of the two options is configured:
  with \<open>HoldTime\<close> 45 and \<open>HoldListLen\<close> left at zero the bound of the hold
  buffer is 0, not the default 60; with \<open>HoldTime\<close> left at zero and
  \<open>HoldListLen\<close> 7 the bound is 60 and the TTL 3 minutes, and the configured
  7 is not used.
\<close>

theorem hold_buffer_single_option:
  "cl_ttl (hold_buffer (NewHealthGServer initial_gc_vars 10 0
      (demo_config\<lparr>cfg_BufConfig := \<lparr>HoldTime = 45, HoldListLen = 0\<rparr>\<rparr>))) = 45000000000 \<and>
   cl_max_len (hold_buffer (NewHealthGServer initial_gc_vars 10 0
      (demo_config\<lparr>cfg_BufConfig := \<lparr>HoldTime = 45, HoldListLen = 0\<rparr>\<rparr>))) = 0 \<and>
   cl_ttl (hold_buffer (NewHealthGServer initial_gc_vars 10 0
      (demo_config\<lparr>cfg_BufConfig := \<lparr>HoldTime = 0, HoldListLen = 7\<rparr>\<rparr>))) = 180000000000 \<and>
   cl_max_len (hold_buffer (NewHealthGServer initial_gc_vars 10 0
      (demo_config\<lparr>cfg_BufConfig := \<lparr>HoldTime = 0, HoldListLen = 7\<rparr>\<rparr>))) = 60"
  by (simp add: NewHealthGServer_def demo_config_def NewCacheList_def HOLD_TIME_def
      HOLD_LIST_LEN_def Minute_def Second_def wrap64_def)

text \<open>
  Claim C8, amended. \<open>HoldTime\<close> alone selects the hold buffer of a new
  server. When \<open>HoldTime\<close> is not configured (zero, or any value that is not
  positive) the TTL is 3 minutes and the per-subject bound is 60, whatever
  \<open>HoldListLen\<close> is; when \<open>HoldTime\<close> is positive (and its nanosecond count
  fits the 64-bit duration) the TTL is \<open>HoldTime\<close> seconds and the bound is
  \<open>HoldListLen\<close> as configured, zero when it is left unset. The buffer starts
  empty.
\<close>

theorem hold_buffer_defaults:
  "(HoldTime (cfg_BufConfig cfg) \<le> 0 \<longrightarrow>
      cl_ttl (hold_buffer (NewHealthGServer g bound now cfg)) = 3 * 60 * 1000000000 \<and>
      cl_max_len (hold_buffer (NewHealthGServer g bound now cfg)) = 60) \<and>
   (0 < HoldTime (cfg_BufConfig cfg) \<and> HoldTime (cfg_BufConfig cfg) \<le> 9223372036 \<longrightarrow>
      cl_ttl (hold_buffer (NewHealthGServer g bound now cfg)) = HoldTime (cfg_BufConfig cfg) * 1000000000 \<and>
      cl_max_len (hold_buffer (NewHealthGServer g bound now cfg)) = HoldListLen (cfg_BufConfig cfg)) \<and>
   cl_items (hold_buffer (NewHealthGServer g bound now cfg)) = Map.empty"
  by (auto simp: NewHealthGServer_def NewCacheList_def HOLD_TIME_def HOLD_LIST_LEN_def
      Minute_def Second_def wrap64_def)


theorem hold_buffer_defaults_witness:
  "cl_ttl (hold_buffer (NewHealthGServer initial_gc_vars 10 0 demo_config)) = 180000000000 \<and>
   cl_max_len (hold_buffer (NewHealthGServer initial_gc_vars 10 0 demo_config)) = 60 \<and>
   cl_ttl (hold_buffer (NewHealthGServer initial_gc_vars 10 0
      (demo_config\<lparr>cfg_BufConfig := \<lparr>HoldTime = 45, HoldListLen = 7\<rparr>\<rparr>))) = 45000000000 \<and>
   cl_max_len (hold_buffer (NewHealthGServer initial_gc_vars 10 0
      (demo_config\<lparr>cfg_BufConfig := \<lparr>HoldTime = 45, HoldListLen = 7\<rparr>\<rparr>))) = 7"
  using hold_buffer_defaults [of demo_config initial_gc_vars 10 0]
    hold_buffer_defaults [of "demo_config\<lparr>cfg_BufConfig := \<lparr>HoldTime = 45, HoldListLen = 7\<rparr>\<rparr>" initial_gc_vars 10 0]
  by (simp add: demo_config_def)

subsection \<open>Registration and the watch list\<close>

text \<open>
  Claim C9. Under any iteration order of the registration map: a \<open>Register\<close>
  whose module and observer are already registered returns a handle of such a
  registration and leaves the whole server unchanged (watch list,
  registrations and next handle included); a \<open>Register\<close> that matches no
  registration puts the observer on the watch list, stores the new
  registration under the returned handle and advances the next handle past it.
\<close>

theorem Register_watch_list:
  assumes "range_order (registrations self) ks"
  shows
    "((\<exists>h r. registrations self h = Some r \<and> reg_Module r = req_Module req \<and>
              reg_Observer r = req_Observer req) \<longrightarrow>
        snd (Register self now ks req) = self \<and>
        (\<exists>r. registrations self (Handle (fst (Register self now ks req))) = Some r \<and>
             reg_Module r = req_Module req \<and> reg_Observer r = req_Observer req)) \<and>
     ((\<forall>h r. registrations self h = Some r \<longrightarrow>
              \<not> (reg_Module r = req_Module req \<and> reg_Observer r = req_Observer req)) \<longrightarrow>
        req_Observer req \<in> dom (Watchlist (storage (snd (Register self now ks req)))) \<and>
        registrations (snd (Register self now ks req)) (Handle (fst (Register self now ks req))) =
          Some \<lparr>reg_Module = req_Module req, reg_Observer = req_Observer req,
                reg_Handle = Handle (fst (Register self now ks req)), reg_Time = now\<rparr> \<and>
        next_handle (snd (Register self now ks req)) = Handle (fst (Register self now ks req)) + 1)"
proof (intro conjI impI)
  assume "\<exists>h r. registrations self h = Some r \<and> reg_Module r = req_Module req \<and>
              reg_Observer r = req_Observer req"
  then obtain h r where hr: "registrations self h = Some r" "reg_Module r = req_Module req"
    "reg_Observer r = req_Observer req" by blast
  from hr(1) assms have "h \<in> set ks" by (auto simp: range_order_def)
  from scan_registrations_match [of h ks "registrations self" r "req_Module req" "req_Observer req" 0] this hr
  obtain h' where h': "scan_registrations (registrations self) (req_Module req) (req_Observer req) ks 0 = Inl h'"
    by blast
  then show "snd (Register self now ks req) = self" by (simp add: Register_def)
  from scan_registrations_Inl [OF h'] h'
  show "\<exists>r. registrations self (Handle (fst (Register self now ks req))) = Some r \<and>
             reg_Module r = req_Module req \<and> reg_Observer r = req_Observer req"
    by (simp add: Register_def)
next
  assume no: "\<forall>h r. registrations self h = Some r \<longrightarrow>
              \<not> (reg_Module r = req_Module req \<and> reg_Observer r = req_Observer req)"
  then have "\<forall>h\<in>set ks. \<forall>r. registrations self h = Some r \<longrightarrow>
              \<not> (reg_Module r = req_Module req \<and> reg_Observer r = req_Observer req)" by blast
  from scan_registrations_no_match [OF this]
  obtain seen where seen: "scan_registrations (registrations self) (req_Module req) (req_Observer req) ks 0 = Inr seen"
    by blast
  then show "req_Observer req \<in> dom (Watchlist (storage (snd (Register self now ks req))))"
    using AddSubject_watched [of "req_Observer req" "storage self" now]
    by (simp add: Register_def Let_def)
  from seen show "registrations (snd (Register self now ks req)) (Handle (fst (Register self now ks req))) =
          Some \<lparr>reg_Module = req_Module req, reg_Observer = req_Observer req,
                reg_Handle = Handle (fst (Register self now ks req)), reg_Time = now\<rparr>"
    by (simp add: Register_def Let_def)
  from seen show "next_handle (snd (Register self now ks req)) = Handle (fst (Register self now ks req)) + 1"
    by (simp add: Register_def Let_def)
qed

lemma registrations_demo_server: "registrations demo_server = Map.empty"
  by (simp add: demo_server_def NewHealthGServer_def)

lemma registrations_registered_server:
  "registrations registered_server =
     [10000 \<mapsto> \<lparr>reg_Module = ''mod'', reg_Observer = ''obs1'', reg_Handle = 10000, reg_Time = 5\<rparr>]"
  by (simp add: registered_server_def Register_def demo_server_def NewHealthGServer_def
      demo_request_def HANDLE_START_def Let_def)

theorem Register_watch_list_witness:
  "range_order (registrations demo_server) [] \<and>
   ''obs1'' \<in> dom (Watchlist (storage (snd (Register demo_server 5 [] demo_request)))) \<and>
   range_order (registrations registered_server) [10000] \<and>
   snd (Register registered_server 9 [10000] demo_request) = registered_server"
proof -
  have o1: "range_order (registrations demo_server) []"
    by (simp add: range_order_def registrations_demo_server)
  have o2: "range_order (registrations registered_server) [10000]"
    by (simp add: range_order_def registrations_registered_server)
  have fresh: "\<forall>h r. registrations demo_server h = Some r \<longrightarrow>
      \<not> (reg_Module r = req_Module demo_request \<and> reg_Observer r = req_Observer demo_request)"
    by (simp add: registrations_demo_server)
  have dup: "\<exists>h r. registrations registered_server h = Some r \<and>
      reg_Module r = req_Module demo_request \<and> reg_Observer r = req_Observer demo_request"
    by (rule exI [of _ 10000]) (simp add: registrations_registered_server demo_request_def)
  from Register_watch_list [OF o1, of demo_request 5] fresh
  have "req_Observer demo_request \<in> dom (Watchlist (storage (snd (Register demo_server 5 [] demo_request))))"
    by blast
  moreover from Register_watch_list [OF o2, of demo_request 9] dup
  have "snd (Register registered_server 9 [10000] demo_request) = registered_server"
    by blast
  ultimately show ?thesis using o1 o2 by (simp add: demo_request_def)
qed

subsection \<open>One registration and the registry invariant\<close>

lemma handle_succ_unat: "unat (x :: handle) + 1 < 2 ^ 64 \<Longrightarrow> unat (x + 1) = unat x + 1"
  using unat_add_lem [of x 1] by simp

lemma handle_succ_greater: "unat (x :: handle) + 1 < 2 ^ 64 \<Longrightarrow> x < x + 1"
  using handle_succ_unat [of x] by (simp add: word_less_nat_alt)

lemma handle_less_succ: "h < x \<Longrightarrow> unat (x :: handle) + 1 < 2 ^ 64 \<Longrightarrow> h < x + 1"
  using handle_succ_unat [of x] by (simp add: word_less_nat_alt)

lemma handle_succ_pos: "0 < x \<Longrightarrow> unat (x :: handle) + 1 < 2 ^ 64 \<Longrightarrow> 0 < x + 1"
  using handle_succ_unat [of x] by (simp add: word_less_nat_alt)

lemma scan_registrations_bound:
  "scan_registrations regs m ob ks mx = Inr seen \<Longrightarrow> mx < N \<Longrightarrow>
   (\<And>h r. regs h = Some r \<Longrightarrow> h < N) \<Longrightarrow> seen < N"
  by (induction ks arbitrary: mx) (auto split: option.splits if_splits)

lemma Register_existing:
  assumes "registry_inv self" "range_order (registrations self) ks"
    "registrations self h = Some r" "matches r req"
  shows "Register self now ks req = (\<lparr>Handle = h\<rparr>, self)"
proof -
  from assms(2,3) have "h \<in> set ks" by (auto simp: range_order_def)
  from scan_registrations_match [of h ks "registrations self" r "req_Module req" "req_Observer req" 0] this assms(3,4)
  obtain h' where h': "scan_registrations (registrations self) (req_Module req) (req_Observer req) ks 0 = Inl h'"
    by (auto simp: matches_def)
  from scan_registrations_Inl [OF h'] obtain r' where
    "registrations self h' = Some r'" "reg_Module r' = req_Module req" "reg_Observer r' = req_Observer req"
    by blast
  with assms(1,3,4) have "h' = h" unfolding registry_inv_def matches_def by metis
  with h' show ?thesis by (simp add: Register_def)
qed

lemma Register_fresh:
  assumes "registry_inv self" "0 < next_handle self" "unat (next_handle self) + 1 < 2 ^ 64"
    "\<And>h r. registrations self h = Some r \<Longrightarrow> \<not> matches r req"
  shows "fst (Register self now ks req) = \<lparr>Handle = next_handle self\<rparr>"
    and "registrations (snd (Register self now ks req)) =
         (registrations self)(next_handle self \<mapsto>
            \<lparr>reg_Module = req_Module req, reg_Observer = req_Observer req,
             reg_Handle = next_handle self, reg_Time = now\<rparr>)"
    and "next_handle (snd (Register self now ks req)) = next_handle self + 1"
    and "registry_inv (snd (Register self now ks req))"
proof -
  from assms(4) have "\<forall>h\<in>set ks. \<forall>r. registrations self h = Some r \<longrightarrow>
      \<not> (reg_Module r = req_Module req \<and> reg_Observer r = req_Observer req)"
    by (auto simp: matches_def)
  from scan_registrations_no_match [OF this]
  obtain seen where seen: "scan_registrations (registrations self) (req_Module req) (req_Observer req) ks 0 = Inr seen"
    by blast
  from assms(1) have below: "\<And>h r. registrations self h = Some r \<Longrightarrow> h < next_handle self"
    by (auto simp: registry_inv_def)
  from scan_registrations_bound [OF seen assms(2) below] have lt: "seen < next_handle self" by simp
  from seen lt show 1: "fst (Register self now ks req) = \<lparr>Handle = next_handle self\<rparr>"
    by (simp add: Register_def Let_def)
  from seen lt show 2: "registrations (snd (Register self now ks req)) =
         (registrations self)(next_handle self \<mapsto>
            \<lparr>reg_Module = req_Module req, reg_Observer = req_Observer req,
             reg_Handle = next_handle self, reg_Time = now\<rparr>)"
    by (simp add: Register_def Let_def)
  from seen lt show 3: "next_handle (snd (Register self now ks req)) = next_handle self + 1"
    by (simp add: Register_def Let_def)
  have below': "\<And>h r. registrations self h = Some r \<Longrightarrow> h < next_handle self + 1"
    using below handle_less_succ [OF _ assms(3)] by blast
  have self_lt: "next_handle self < next_handle self + 1"
    using handle_succ_greater [OF assms(3)] .
  from assms(1) have inj: "\<And>h h' r r'. registrations self h = Some r \<Longrightarrow>
      registrations self h' = Some r' \<Longrightarrow> reg_Module r = reg_Module r' \<Longrightarrow>
      reg_Observer r = reg_Observer r' \<Longrightarrow> h = h'"
    unfolding registry_inv_def by blast
  show "registry_inv (snd (Register self now ks req))"
    unfolding registry_inv_def 2 3
  proof (intro conjI allI impI)
    fix h r
    assume "((registrations self)(next_handle self \<mapsto>
            \<lparr>reg_Module = req_Module req, reg_Observer = req_Observer req,
             reg_Handle = next_handle self, reg_Time = now\<rparr>)) h = Some r"
    then show "h < next_handle self + 1"
      using below' self_lt by (auto split: if_splits)
  next
    fix h h' r r'
    assume a: "((registrations self)(next_handle self \<mapsto>
            \<lparr>reg_Module = req_Module req, reg_Observer = req_Observer req,
             reg_Handle = next_handle self, reg_Time = now\<rparr>)) h = Some r"
      "((registrations self)(next_handle self \<mapsto>
            \<lparr>reg_Module = req_Module req, reg_Observer = req_Observer req,
             reg_Handle = next_handle self, reg_Time = now\<rparr>)) h' = Some r'"
      "reg_Module r = reg_Module r'" "reg_Observer r = reg_Observer r'"
    show "h = h'"
    proof (cases "h = next_handle self")
      case True
      show ?thesis
      proof (cases "h' = next_handle self")
        case True
        with \<open>h = next_handle self\<close> show ?thesis by simp
      next
        case False
        with a True have "registrations self h' = Some r'" "matches r' req"
          by (auto simp: matches_def)
        with assms(4) show ?thesis by blast
      qed
    next
      case False
      show ?thesis
      proof (cases "h' = next_handle self")
        case True
        with a False have "registrations self h = Some r" "matches r req"
          by (auto simp: matches_def)
        with assms(4) show ?thesis by blast
      next
        case h'ne: False
        with a False show ?thesis using inj [of h r h' r'] by simp
      qed
    qed
  qed
qed

lemma Register_step:
  assumes "registry_inv self" "0 < next_handle self" "unat (next_handle self) + 1 < 2 ^ 64"
    "range_order (registrations self) ks"
  shows "registry_inv (snd (Register self now ks req)) \<and>
         0 < next_handle (snd (Register self now ks req)) \<and>
         unat (next_handle (snd (Register self now ks req))) \<le> unat (next_handle self) + 1 \<and>
         unat (next_handle self) \<le> unat (next_handle (snd (Register self now ks req))) \<and>
         (\<forall>h r. registrations self h = Some r \<longrightarrow>
                registrations (snd (Register self now ks req)) h = Some r) \<and>
         (\<exists>r. registrations (snd (Register self now ks req)) (Handle (fst (Register self now ks req))) = Some r \<and>
              matches r req)"
proof (cases "\<exists>h r. registrations self h = Some r \<and> matches r req")
  case True
  then obtain h r where hr: "registrations self h = Some r" "matches r req" by blast
  from Register_existing [OF assms(1,4) hr] assms(1,2) hr show ?thesis by auto
next
  case False
  then have no: "\<And>h r. registrations self h = Some r \<Longrightarrow> \<not> matches r req" by blast
  note f = Register_fresh [OF assms(1,2,3) no, where now = now and ks = ks]
  from assms(1) have below: "\<And>h r. registrations self h = Some r \<Longrightarrow> h < next_handle self"
    by (auto simp: registry_inv_def)
  have "0 < next_handle self + 1"
    using handle_succ_pos [OF assms(2,3)] .
  moreover have "unat (next_handle self + 1) = unat (next_handle self) + 1"
    using handle_succ_unat [OF assms(3)] .
  moreover have "\<forall>h r. registrations self h = Some r \<longrightarrow>
      ((registrations self)(next_handle self \<mapsto>
            \<lparr>reg_Module = req_Module req, reg_Observer = req_Observer req,
             reg_Handle = next_handle self, reg_Time = now\<rparr>)) h = Some r"
    using below by auto
  ultimately show ?thesis using f by (simp add: matches_def)
qed


lemma registry_inv_new: "registry_inv (NewHealthGServer g bound now cfg)"
  by (simp add: registry_inv_def NewHealthGServer_def)

lemma next_handle_new: "next_handle (NewHealthGServer g bound now cfg) = 10000"
  by (simp add: NewHealthGServer_def HANDLE_START_def)

lemma registrations_new: "registrations (NewHealthGServer g bound now cfg) = Map.empty"
  by (simp add: NewHealthGServer_def)

lemma Register_first:
  "registrations self = Map.empty \<Longrightarrow> next_handle self = 10000 \<Longrightarrow>
   Handle (fst (Register self now ks req)) = 10000"
proof -
  assume e: "registrations self = Map.empty" and n: "next_handle self = 10000"
  have "\<forall>h\<in>set ks. \<forall>r. registrations self h = Some r \<longrightarrow>
      \<not> (reg_Module r = req_Module req \<and> reg_Observer r = req_Observer req)"
    using e by simp
  from scan_registrations_no_match [OF this] obtain seen where
    seen: "scan_registrations (registrations self) (req_Module req) (req_Observer req) ks 0 = Inr seen"
    by blast
  have "seen < 10000"
    by (rule scan_registrations_bound [OF seen]) (simp_all add: e)
  with seen n show ?thesis by (simp add: Register_def Let_def)
qed

subsection \<open>Submission with a restored handle\<close>

lemma AddReport_Watchlist: "Watchlist (snd (snd (AddReport st r flt))) = Watchlist st"
  by (simp add: AddReport_def Let_def split: option.splits)

lemma AddReport_not_ignored: "fst (AddReport st r False) \<noteq> REPORT_IGNORED"
  by (simp add: AddReport_def Let_def split: option.splits)

lemma ingest_local_registrations: "registrations (snd (ingest_local self req)) = registrations self"
  by (simp add: ingest_local_def split: option.splits prod.splits accept_code.splits)

lemma ingest_local_storage:
  "sub_Report req = Some report \<Longrightarrow>
   storage (snd (ingest_local self req)) = snd (snd (AddReport (storage self) report False))"
  by (simp add: ingest_local_def split: option.splits prod.splits accept_code.splits)

lemma ingest_local_outcome:
  "sub_Report req = Some report \<Longrightarrow>
   fst (ingest_local self req) =
     (case AddReport (storage self) report False of
        (REPORT_ACCEPTED, err, st) \<Rightarrow> Return (Some \<lparr>Result = ACCEPTED\<rparr>) err
      | (REPORT_FAILED, err, st) \<Rightarrow> Return (Some \<lparr>Result = FAILED\<rparr>) err
      | (REPORT_IGNORED, err, st) \<Rightarrow>
          Return None (Some ''Should not ignore local report. Probably due to a bug''))"
  by (simp add: ingest_local_def split: option.splits prod.splits accept_code.splits)

text \<open>
  Claim C2. A \<open>SubmitReport\<close> whose handle is not in the active
  registrations. If the old registrations hold the handle and the report's
  observer is the old registration's observer, the registration is promoted
  into the active map, the observer is on the watch list afterwards, and the
  submission proceeds: the report is added to the store (after the promotion)
  with the filter off and the reply is the one of that addition, never the
  invalid-handle error. If the observer differs, or the handle is in neither
  map (there being no old registrations at all included), the call returns
  the error \<open>Invalid submission handle\<close> and the server is unchanged.
\<close>

theorem SubmitReport_old_registration:
  assumes "registrations self (sub_Handle req) = None"
  shows
    "(\<forall>old old_reg report.
        old_registrations self = Some old \<and> old (sub_Handle req) = Some old_reg \<and>
        sub_Report req = Some report \<longrightarrow>
          (reg_Observer old_reg = Observer report \<longrightarrow>
             registrations (snd (SubmitReport self now req)) =
               (registrations self)(sub_Handle req \<mapsto> old_reg) \<and>
             Observer report \<in> dom (Watchlist (storage (snd (SubmitReport self now req)))) \<and>
             storage (snd (SubmitReport self now req)) =
               snd (snd (AddReport (snd (AddSubject (storage self) (Observer report) now)) report False)) \<and>
             fst (SubmitReport self now req) =
               (case AddReport (snd (AddSubject (storage self) (Observer report) now)) report False of
                  (REPORT_ACCEPTED, err, st) \<Rightarrow> Return (Some \<lparr>Result = ACCEPTED\<rparr>) err
                | (REPORT_FAILED, err, st) \<Rightarrow> Return (Some \<lparr>Result = FAILED\<rparr>) err
                | (REPORT_IGNORED, err, st) \<Rightarrow>
                    Return None (Some ''Should not ignore local report. Probably due to a bug'')) \<and>
             fst (SubmitReport self now req) \<noteq> Return None (Some ''Invalid submission handle'')) \<and>
          (reg_Observer old_reg \<noteq> Observer report \<longrightarrow>
             SubmitReport self now req = (Return None (Some ''Invalid submission handle''), self))) \<and>
     ((old_registrations self = None \<or>
       (\<exists>old. old_registrations self = Some old \<and> old (sub_Handle req) = None)) \<longrightarrow>
        SubmitReport self now req = (Return None (Some ''Invalid submission handle''), self))"
proof (intro conjI allI impI)
  fix old old_reg report
  assume a: "old_registrations self = Some old \<and> old (sub_Handle req) = Some old_reg \<and>
        sub_Report req = Some report"
    and m: "reg_Observer old_reg = Observer report"
  let ?p = "self\<lparr>registrations := (registrations self)(sub_Handle req \<mapsto> old_reg),
                 storage := snd (AddSubject (storage self) (reg_Observer old_reg) now)\<rparr>"
  from assms a m have eq: "SubmitReport self now req = ingest_local ?p req"
    by (simp add: SubmitReport_def)
  show "registrations (snd (SubmitReport self now req)) =
               (registrations self)(sub_Handle req \<mapsto> old_reg)"
    by (simp add: eq ingest_local_registrations)
  from a have rep: "sub_Report req = Some report" by simp
  show st: "storage (snd (SubmitReport self now req)) =
               snd (snd (AddReport (snd (AddSubject (storage self) (Observer report) now)) report False))"
    by (simp add: eq ingest_local_storage [OF rep] m)
  show "Observer report \<in> dom (Watchlist (storage (snd (SubmitReport self now req))))"
    unfolding st AddReport_Watchlist by (rule AddSubject_watched)
  show out: "fst (SubmitReport self now req) =
               (case AddReport (snd (AddSubject (storage self) (Observer report) now)) report False of
                  (REPORT_ACCEPTED, err, st) \<Rightarrow> Return (Some \<lparr>Result = ACCEPTED\<rparr>) err
                | (REPORT_FAILED, err, st) \<Rightarrow> Return (Some \<lparr>Result = FAILED\<rparr>) err
                | (REPORT_IGNORED, err, st) \<Rightarrow>
                    Return None (Some ''Should not ignore local report. Probably due to a bug''))"
    by (simp add: eq ingest_local_outcome [OF rep] m)
  show "fst (SubmitReport self now req) \<noteq> Return None (Some ''Invalid submission handle'')"
    unfolding out by (simp split: prod.splits accept_code.splits)
next
  fix old old_reg report
  assume a: "old_registrations self = Some old \<and> old (sub_Handle req) = Some old_reg \<and>
        sub_Report req = Some report"
    and m: "reg_Observer old_reg \<noteq> Observer report"
  with assms show "SubmitReport self now req = (Return None (Some ''Invalid submission handle''), self)"
    by (simp add: SubmitReport_def invalid_handle_def)
next
  assume "old_registrations self = None \<or>
       (\<exists>old. old_registrations self = Some old \<and> old (sub_Handle req) = None)"
  with assms show "SubmitReport self now req = (Return None (Some ''Invalid submission handle''), self)"
    by (auto simp: SubmitReport_def invalid_handle_def)
qed

lemma restarted_server_registrations:
  "registrations restarted_server = Map.empty"
  "old_registrations restarted_server = Some persisted_registrations"
  by (simp_all add: restarted_server_def Start_def demo_server_def NewHealthGServer_def demo_env_def
      Let_def initial_gc_vars_def)

lemma restarted_server_storage:
  "storage restarted_server =
     \<lparr>Watchlist = [''db'' \<mapsto> 0], Tenants = [], view_bound = 10, st_sink = True\<rparr>"
  by (simp add: restarted_server_def Start_def demo_server_def NewHealthGServer_def demo_env_def
      Let_def initial_gc_vars_def NewRawHealthStorage_def demo_config_def store_SetDB_def)

theorem SubmitReport_old_registration_witness:
  "registrations restarted_server 10000 = None \<and>
   fst (SubmitReport restarted_server 20 \<lparr>sub_Handle = 10000, sub_Report = Some demo_report\<rparr>) =
     Return (Some \<lparr>Result = ACCEPTED\<rparr>) None \<and>
   registrations (snd (SubmitReport restarted_server 20 \<lparr>sub_Handle = 10000, sub_Report = Some demo_report\<rparr>))
     10000 = persisted_registrations 10000 \<and>
   SubmitReport restarted_server 20
     \<lparr>sub_Handle = 10000, sub_Report = Some (demo_report\<lparr>Observer := ''other''\<rparr>)\<rparr> =
     (Return None (Some ''Invalid submission handle''), restarted_server) \<and>
   SubmitReport restarted_server 20 \<lparr>sub_Handle = 10001, sub_Report = Some demo_report\<rparr> =
     (Return None (Some ''Invalid submission handle''), restarted_server)"
proof -
  have h0: "registrations restarted_server (sub_Handle \<lparr>sub_Handle = 10000, sub_Report = Some demo_report\<rparr>) = None"
    and h1: "registrations restarted_server
      (sub_Handle \<lparr>sub_Handle = 10000, sub_Report = Some (demo_report\<lparr>Observer := ''other''\<rparr>)\<rparr>) = None"
    and h2: "registrations restarted_server (sub_Handle \<lparr>sub_Handle = 10001, sub_Report = Some demo_report\<rparr>) = None"
    by (simp_all add: restarted_server_registrations)
  have ok: "AddReport (snd (AddSubject (storage restarted_server) ''obs1'' 20)) demo_report False =
      (REPORT_ACCEPTED, None,
       \<lparr>Watchlist = [''db'' \<mapsto> 0, ''obs1'' \<mapsto> 20],
        Tenants = [(''db'', [(''obs1'', [\<lparr>Ts = 10, Metrics = [\<lparr>Name = ''cpu'', Status = HEALTHY, Score = 90\<rparr>]\<rparr>])])],
        view_bound = 10, st_sink = True\<rparr>)"
    by (simp add: restarted_server_storage AddSubject_def AddReport_def demo_report_def Let_def)
  from SubmitReport_old_registration [OF h0, of 20]
  have a: "fst (SubmitReport restarted_server 20 \<lparr>sub_Handle = 10000, sub_Report = Some demo_report\<rparr>) =
      Return (Some \<lparr>Result = ACCEPTED\<rparr>) None \<and>
    registrations (snd (SubmitReport restarted_server 20 \<lparr>sub_Handle = 10000, sub_Report = Some demo_report\<rparr>))
     10000 = persisted_registrations 10000"
    using ok by (simp add: restarted_server_registrations persisted_registrations_def demo_report_def)
  from SubmitReport_old_registration [OF h1, of 20]
  have b: "SubmitReport restarted_server 20
     \<lparr>sub_Handle = 10000, sub_Report = Some (demo_report\<lparr>Observer := ''other''\<rparr>)\<rparr> =
     (Return None (Some ''Invalid submission handle''), restarted_server)"
    by (simp add: restarted_server_registrations persisted_registrations_def demo_report_def)
  from SubmitReport_old_registration [OF h2, of 20]
  have c: "SubmitReport restarted_server 20 \<lparr>sub_Handle = 10001, sub_Report = Some demo_report\<rparr> =
     (Return None (Some ''Invalid submission handle''), restarted_server)"
    by (simp add: restarted_server_registrations persisted_registrations_def)
  from a b c h0 show ?thesis by simp
qed

subsection \<open>Learning a report\<close>




lemma demo_server_storage:
  "storage demo_server = \<lparr>Watchlist = [''db'' \<mapsto> 0], Tenants = [], view_bound = 10, st_sink = False\<rparr>"
  by (simp add: demo_server_def NewHealthGServer_def NewRawHealthStorage_def demo_config_def)

lemma demo_server_hold_buffer:
  "hold_buffer demo_server = \<lparr>cl_ttl = 180000000000, cl_max_len = 60, cl_items = Map.empty\<rparr>"
  by (simp add: demo_server_def NewHealthGServer_def demo_config_def NewCacheList_def
      HOLD_TIME_def HOLD_LIST_LEN_def Minute_def Second_def)

lemma demo_server_filter: "FilterSubmission (config demo_server)"
  by (simp add: demo_server_def NewHealthGServer_def demo_config_def)


subsection \<open>Local reports are never ignored\<close>

text \<open>
  Claim C5. The store never answers \<open>REPORT_IGNORED\<close> when the filter is off.
  Hence \<open>SubmitReport\<close> never returns the error of its branch for an ignored
  local report, every reply it returns carries \<open>ACCEPTED\<close> or \<open>FAILED\<close>, and
  with a valid handle (registered, or restored from the old registrations)
  the store after the call is the store after adding the report with the
  filter off.
\<close>

theorem SubmitReport_never_ignored:
  "fst (AddReport st report False) \<noteq> REPORT_IGNORED \<and>
   fst (SubmitReport self now req) \<noteq>
     Return None (Some ''Should not ignore local report. Probably due to a bug'') \<and>
   (\<forall>reply err. fst (SubmitReport self now req) = Return (Some reply) err \<longrightarrow>
      Result reply = ACCEPTED \<or> Result reply = FAILED) \<and>
   (\<forall>reg report. registrations self (sub_Handle req) = Some reg \<and> sub_Report req = Some report \<longrightarrow>
      storage (snd (SubmitReport self now req)) = snd (snd (AddReport (storage self) report False)) \<and>
      (fst (SubmitReport self now req) =
         Return (Some \<lparr>Result = ACCEPTED\<rparr>) (fst (snd (AddReport (storage self) report False))) \<or>
       fst (SubmitReport self now req) =
         Return (Some \<lparr>Result = FAILED\<rparr>) (fst (snd (AddReport (storage self) report False))))) \<and>
   (\<forall>old old_reg report.
      registrations self (sub_Handle req) = None \<and> old_registrations self = Some old \<and>
      old (sub_Handle req) = Some old_reg \<and> sub_Report req = Some report \<and>
      reg_Observer old_reg = Observer report \<longrightarrow>
      storage (snd (SubmitReport self now req)) =
        snd (snd (AddReport (snd (AddSubject (storage self) (reg_Observer old_reg) now)) report False)))"
proof -
  have promoted: "\<forall>old old_reg report.
      registrations self (sub_Handle req) = None \<and> old_registrations self = Some old \<and>
      old (sub_Handle req) = Some old_reg \<and> sub_Report req = Some report \<and>
      reg_Observer old_reg = Observer report \<longrightarrow>
      storage (snd (SubmitReport self now req)) =
        snd (snd (AddReport (snd (AddSubject (storage self) (reg_Observer old_reg) now)) report False))"
    by (auto simp: SubmitReport_def ingest_local_storage)
  have il: "fst (ingest_local s req) \<noteq>
     Return None (Some ''Should not ignore local report. Probably due to a bug'') \<and>
     (\<forall>reply err. fst (ingest_local s req) = Return (Some reply) err \<longrightarrow>
      Result reply = ACCEPTED \<or> Result reply = FAILED)" for s
  proof (cases "sub_Report req")
    case None
    then show ?thesis by (simp add: ingest_local_def)
  next
    case (Some report)
    obtain rc err st' where ar: "AddReport (storage s) report False = (rc, err, st')"
      by (cases "AddReport (storage s) report False") auto
    with AddReport_not_ignored [of "storage s" report] have "rc \<noteq> REPORT_IGNORED" by simp
    with ar Some show ?thesis by (cases rc) (auto simp: ingest_local_def)
  qed
  have sr: "fst (SubmitReport self now req) \<noteq>
     Return None (Some ''Should not ignore local report. Probably due to a bug'') \<and>
     (\<forall>reply err. fst (SubmitReport self now req) = Return (Some reply) err \<longrightarrow>
      Result reply = ACCEPTED \<or> Result reply = FAILED)"
    using il by (auto simp: SubmitReport_def invalid_handle_def split: option.splits)
  have valid: "\<forall>reg report. registrations self (sub_Handle req) = Some reg \<and> sub_Report req = Some report \<longrightarrow>
      storage (snd (SubmitReport self now req)) = snd (snd (AddReport (storage self) report False)) \<and>
      (fst (SubmitReport self now req) =
         Return (Some \<lparr>Result = ACCEPTED\<rparr>) (fst (snd (AddReport (storage self) report False))) \<or>
       fst (SubmitReport self now req) =
         Return (Some \<lparr>Result = FAILED\<rparr>) (fst (snd (AddReport (storage self) report False))))"
  proof (intro allI impI)
    fix reg report
    assume a: "registrations self (sub_Handle req) = Some reg \<and> sub_Report req = Some report"
    obtain rc err st' where ar: "AddReport (storage self) report False = (rc, err, st')"
      by (cases "AddReport (storage self) report False") auto
    with AddReport_not_ignored [of "storage self" report] have "rc \<noteq> REPORT_IGNORED" by simp
    with a ar show "storage (snd (SubmitReport self now req)) = snd (snd (AddReport (storage self) report False)) \<and>
      (fst (SubmitReport self now req) =
         Return (Some \<lparr>Result = ACCEPTED\<rparr>) (fst (snd (AddReport (storage self) report False))) \<or>
       fst (SubmitReport self now req) =
         Return (Some \<lparr>Result = FAILED\<rparr>) (fst (snd (AddReport (storage self) report False))))"
      by (cases rc) (auto simp: SubmitReport_def ingest_local_def)
  qed
  from AddReport_not_ignored sr valid promoted show ?thesis by blast
qed

lemma registered_server_storage:
  "storage registered_server =
     \<lparr>Watchlist = [''db'' \<mapsto> 0, ''obs1'' \<mapsto> 5], Tenants = [], view_bound = 10, st_sink = False\<rparr>"
  by (simp add: registered_server_def Register_def Let_def demo_server_storage AddSubject_def
      demo_request_def registrations_demo_server)

theorem SubmitReport_never_ignored_witness:
  "registrations registered_server (sub_Handle submit_request) =
     Some \<lparr>reg_Module = ''mod'', reg_Observer = ''obs1'', reg_Handle = 10000, reg_Time = 5\<rparr> \<and>
   sub_Report submit_request = Some demo_report \<and>
   fst (SubmitReport registered_server 20 submit_request) = Return (Some \<lparr>Result = ACCEPTED\<rparr>) None \<and>
   store_GetView (storage (snd (SubmitReport registered_server 20 submit_request))) ''db'' ''obs1'' =
     Some [\<lparr>Ts = 10, Metrics = [\<lparr>Name = ''cpu'', Status = HEALTHY, Score = 90\<rparr>]\<rparr>]"
proof -
  have v: "registrations registered_server (sub_Handle submit_request) =
     Some \<lparr>reg_Module = ''mod'', reg_Observer = ''obs1'', reg_Handle = 10000, reg_Time = 5\<rparr> \<and>
     sub_Report submit_request = Some demo_report"
    by (simp add: registrations_registered_server submit_request_def)
  have ar: "AddReport (storage registered_server) demo_report False =
      (REPORT_ACCEPTED, None,
       \<lparr>Watchlist = [''db'' \<mapsto> 0, ''obs1'' \<mapsto> 5],
        Tenants = [(''db'', [(''obs1'', [\<lparr>Ts = 10, Metrics = [\<lparr>Name = ''cpu'', Status = HEALTHY, Score = 90\<rparr>]\<rparr>])])],
        view_bound = 10, st_sink = False\<rparr>)"
    by (simp add: registered_server_storage AddReport_def demo_report_def Let_def)
  from SubmitReport_never_ignored [of "storage registered_server" demo_report registered_server 20 submit_request] v
  have "storage (snd (SubmitReport registered_server 20 submit_request)) =
          snd (snd (AddReport (storage registered_server) demo_report False)) \<and>
        (fst (SubmitReport registered_server 20 submit_request) =
           Return (Some \<lparr>Result = ACCEPTED\<rparr>) (fst (snd (AddReport (storage registered_server) demo_report False))) \<or>
         fst (SubmitReport registered_server 20 submit_request) =
           Return (Some \<lparr>Result = FAILED\<rparr>) (fst (snd (AddReport (storage registered_server) demo_report False))))"
    by blast
  moreover have "fst (SubmitReport registered_server 20 submit_request) \<noteq> Return (Some \<lparr>Result = FAILED\<rparr>) None"
    using v ar by (simp add: SubmitReport_def ingest_local_def)
  ultimately show ?thesis using v ar by (simp add: store_GetView_def)
qed

subsection \<open>Queries\<close>

text \<open>
  Claim C7. Each of \<open>GetLatestReport\<close>, \<open>GetPanorama\<close>, \<open>GetView\<close> and
  \<open>GetInference\<close> returns no result and an error with a message when the
  store (the inference store for the last) has nothing for the request, and
  returns the stored value and no error otherwise.
\<close>

theorem query_nil_is_error:
  "(store_GetLatestReport (storage self) subject = None \<longrightarrow>
      GetLatestReport self subject = Return None (Some (''No report for '' @ subject))) \<and>
   (\<forall>r. store_GetLatestReport (storage self) subject = Some r \<longrightarrow>
      GetLatestReport self subject = Return (Some r) None) \<and>
   (store_GetPanorama (storage self) subject = None \<longrightarrow>
      GetPanorama self subject = Return None (Some (''No panorama for '' @ subject))) \<and>
   (\<forall>p. store_GetPanorama (storage self) subject = Some p \<longrightarrow>
      GetPanorama self subject = Return (Some p) None) \<and>
   (store_GetView (storage self) subject observer = None \<longrightarrow>
      GetView self subject observer = Return None (Some (''No view for '' @ subject))) \<and>
   (\<forall>v. store_GetView (storage self) subject observer = Some v \<longrightarrow>
      GetView self subject observer = Return (Some v) None) \<and>
   (infer_GetInference (inference self) subject = None \<longrightarrow>
      GetInference self subject = Return None (Some ''inference does not exist for view'')) \<and>
   (\<forall>i. infer_GetInference (inference self) subject = Some i \<longrightarrow>
      GetInference self subject = Return (Some i) None)"
  by (simp add: GetLatestReport_def GetPanorama_def GetView_def GetInference_def)

lemma reported_server_storage:
  "storage reported_server =
       \<lparr>Watchlist = [''db'' \<mapsto> 0, ''obs1'' \<mapsto> 5],
        Tenants = [(''db'', [(''obs1'', [\<lparr>Ts = 10, Metrics = [\<lparr>Name = ''cpu'', Status = HEALTHY, Score = 90\<rparr>]\<rparr>])])],
        view_bound = 10, st_sink = False\<rparr>"
  by (simp add: reported_server_def SubmitReport_def ingest_local_def registrations_registered_server
      submit_request_def registered_server_storage AddReport_def demo_report_def Let_def)

theorem query_nil_is_error_witness:
  "GetLatestReport reported_server ''db'' = Return (Some demo_report) None \<and>
   GetLatestReport reported_server ''web'' = Return None (Some ''No report for web'') \<and>
   GetPanorama reported_server ''web'' = Return None (Some ''No panorama for web'') \<and>
   GetView reported_server ''db'' ''obs1'' =
     Return (Some [\<lparr>Ts = 10, Metrics = [\<lparr>Name = ''cpu'', Status = HEALTHY, Score = 90\<rparr>]\<rparr>]) None \<and>
   GetView reported_server ''db'' ''obs2'' = Return None (Some ''No view for db'') \<and>
   GetInference reported_server ''db'' = Return None (Some ''inference does not exist for view'')"
proof -
  have 1: "store_GetLatestReport (storage reported_server) ''db'' = Some demo_report"
    by (simp add: reported_server_storage store_GetLatestReport_def demo_report_def)
  have 2: "store_GetLatestReport (storage reported_server) ''web'' = None"
    by (simp add: reported_server_storage store_GetLatestReport_def)
  have 3: "store_GetPanorama (storage reported_server) ''web'' = None"
    by (simp add: reported_server_storage store_GetPanorama_def)
  have 4: "store_GetView (storage reported_server) ''db'' ''obs1'' =
      Some [\<lparr>Ts = 10, Metrics = [\<lparr>Name = ''cpu'', Status = HEALTHY, Score = 90\<rparr>]\<rparr>]"
    by (simp add: reported_server_storage store_GetView_def)
  have 5: "store_GetView (storage reported_server) ''db'' ''obs2'' = None"
    by (simp add: reported_server_storage store_GetView_def)
  have 6: "infer_GetInference (inference reported_server) ''db'' = None"
    by (simp add: reported_server_def SubmitReport_def ingest_local_def registrations_registered_server
        submit_request_def registered_server_storage AddReport_def demo_report_def Let_def
        infer_GetInference_def registered_server_def Register_def registrations_demo_server
        demo_server_def NewHealthGServer_def NewHealthInferenceStorage_def)
  from query_nil_is_error [of reported_server "''db''" "''obs1''"]
    query_nil_is_error [of reported_server "''web''" "''obs1''"]
    query_nil_is_error [of reported_server "''db''" "''obs2''"]
    1 2 3 4 5 6
  show ?thesis by simp
qed

subsection \<open>Start and Stop\<close>

text \<open>
  Claim C10. \<open>Start\<close> on a started server returns an error and leaves the
  server unchanged. \<open>Stop\<close> on a server that is not started returns an error
  (and leaves it unchanged). A \<open>Stop\<close> on a started server succeeds: the
  server and listener handles are cleared, the inference worker is stopped,
  the database, when there is one, is closed, and a following \<open>Start\<close> does
  not fail as already started; it succeeds when the address can be listened
  on, and the server is started again.
\<close>

theorem Start_Stop_lifecycle:
  "(srv self \<noteq> None \<longrightarrow> Start self env = (Some already_started, self)) \<and>
   (srv self = None \<longrightarrow> Stop self graceful = (Some not_started, self)) \<and>
   (srv self \<noteq> None \<longrightarrow>
      fst (Stop self graceful) = None \<and>
      srv (snd (Stop self graceful)) = None \<and>
      lis (snd (Stop self graceful)) = None \<and>
      \<not> inf_running (inference (snd (Stop self graceful))) \<and>
      db (snd (Stop self graceful)) = map_option db_Close (db self) \<and>
      (\<forall>d. db (snd (Stop self graceful)) = Some d \<longrightarrow> \<not> db_opened d) \<and>
      fst (Start (snd (Stop self graceful)) env) \<noteq> Some already_started \<and>
      (listen_ok env \<longrightarrow>
         fst (Start (snd (Stop self graceful)) env) = None \<and>
         srv (snd (Start (snd (Stop self graceful)) env)) \<noteq> None \<and>
         inf_running (inference (snd (Start (snd (Stop self graceful)) env)))))"
  by (auto simp: Start_def Stop_def Let_def infer_Stop_def infer_Start_def db_Close_def
      already_started_def infer_SetDB_def)

theorem Start_Stop_lifecycle_witness:
  "srv demo_server = None \<and>
   Stop demo_server True = (Some not_started, demo_server) \<and>
   srv restarted_server \<noteq> None \<and>
   Start restarted_server demo_env = (Some already_started, restarted_server) \<and>
   fst (Stop restarted_server True) = None \<and>
   srv (snd (Stop restarted_server True)) = None \<and>
   fst (Start (snd (Stop restarted_server True)) demo_env) = None"
proof -
  have a: "srv demo_server = None"
    by (simp add: demo_server_def NewHealthGServer_def)
  have b: "srv restarted_server \<noteq> None"
    by (simp add: restarted_server_def Start_def a demo_env_def Let_def)
  have c: "listen_ok demo_env" by (simp add: demo_env_def)
  from Start_Stop_lifecycle [of demo_server demo_env True]
    Start_Stop_lifecycle [of restarted_server demo_env True] a b c
  show ?thesis by simp
qed

subsection \<open>Draining the hold buffer\<close>

lemma held_server_hold_buffer:
  "hold_buffer held_server =
     \<lparr>cl_ttl = 180000000000, cl_max_len = 60, cl_items = [''web'' \<mapsto> [(20, web_report)]]\<rparr>"
  by (simp add: held_server_def LearnReport_def learn_request_def demo_server_filter
      demo_server_storage AddReport_def web_report_def demo_server_hold_buffer CacheList_Set_def
      unexpired_def)

lemma held_server_storage:
  "storage held_server = \<lparr>Watchlist = [''db'' \<mapsto> 0], Tenants = [], view_bound = 10, st_sink = False\<rparr>"
  by (simp add: held_server_def LearnReport_def learn_request_def demo_server_filter
      demo_server_storage AddReport_def web_report_def)

lemma demo_server_effects: "effects demo_server = []"
  by (simp add: demo_server_def NewHealthGServer_def)

lemma held_server_effects: "effects held_server = []"
  by (simp add: held_server_def LearnReport_def learn_request_def demo_server_filter
      demo_server_storage AddReport_def web_report_def demo_server_effects)

text \<open>
  Claim C4, as stated, fails for \<open>Observe\<close>: with a report about \<open>web\<close> in the
  hold buffer, \<open>Observe\<close> of \<open>web\<close> (10 ns later, well within the TTL) leaves
  the report in the hold buffer and out of the store; the only goroutine it
  starts is the subscription.
\<close>

theorem Observe_keeps_hold_buffer:
  "CacheList_Get (hold_buffer (snd (Observe held_server 30 ''web''))) 30 ''web'' = [(20, web_report)] \<and>
   store_GetPanorama (storage (snd (Observe held_server 30 ''web''))) ''web'' = None \<and>
   effects (snd (Observe held_server 30 ''web'')) = [GoSubscribe ''web'']"
  by (simp add: Observe_def AddSubject_def held_server_storage held_server_hold_buffer
      held_server_effects CacheList_Get_def unexpired_def store_GetPanorama_def)

lemma ingest_local_effects:
  "(\<forall>report err. sub_Report req = Some report \<and>
      fst (ingest_local s req) = Return (Some \<lparr>Result = ACCEPTED\<rparr>) err \<longrightarrow>
      effects (snd (ingest_local s req)) =
        effects s @ [GoAnalyzeReport report True, GoPropagate report]) \<and>
   ((\<forall>err. fst (ingest_local s req) \<noteq> Return (Some \<lparr>Result = ACCEPTED\<rparr>) err) \<longrightarrow>
      effects (snd (ingest_local s req)) = effects s)"
proof (cases "sub_Report req")
  case None
  then show ?thesis by (simp add: ingest_local_def)
next
  case (Some report)
  obtain rc err st where ar: "AddReport (storage s) report False = (rc, err, st)"
    by (cases "AddReport (storage s) report False") auto
  with Some show ?thesis by (cases rc) (simp_all add: ingest_local_def)
qed

lemma ingest_local_accepted:
  "sub_Report req = Some report \<Longrightarrow> fst (AddReport (storage s) report False) = REPORT_ACCEPTED \<Longrightarrow>
   \<exists>err. fst (ingest_local s req) = Return (Some \<lparr>Result = ACCEPTED\<rparr>) err"
  by (auto simp: ingest_local_def split: prod.splits)

lemma SubmitReport_effects:
  "(\<forall>report err. sub_Report req = Some report \<and>
      fst (SubmitReport self now req) = Return (Some \<lparr>Result = ACCEPTED\<rparr>) err \<longrightarrow>
      effects (snd (SubmitReport self now req)) =
        effects self @ [GoAnalyzeReport report True, GoPropagate report]) \<and>
   ((\<forall>err. fst (SubmitReport self now req) \<noteq> Return (Some \<lparr>Result = ACCEPTED\<rparr>) err) \<longrightarrow>
      effects (snd (SubmitReport self now req)) = effects self)"
proof -
  let ?p = "\<lambda>old_reg. self\<lparr>registrations := (registrations self)(sub_Handle req \<mapsto> old_reg),
                 storage := snd (AddSubject (storage self) (reg_Observer old_reg) now)\<rparr>"
  have e: "effects (?p old_reg) = effects self" for old_reg by simp
  show ?thesis
  proof (cases "registrations self (sub_Handle req)")
    case (Some reg)
    then have "SubmitReport self now req = ingest_local self req"
      by (simp add: SubmitReport_def)
    then show ?thesis using ingest_local_effects [of req self] by simp
  next
    case None
    show ?thesis
    proof (cases "old_registrations self")
      case no_old: None
      with None have "SubmitReport self now req = (invalid_handle, self)"
        by (simp add: SubmitReport_def)
      then show ?thesis by (simp add: invalid_handle_def)
    next
      case (Some old)
      show ?thesis
      proof (cases "old (sub_Handle req)")
        case no_reg: None
        with None Some have "SubmitReport self now req = (invalid_handle, self)"
          by (simp add: SubmitReport_def)
        then show ?thesis by (simp add: invalid_handle_def)
      next
        case old_reg: (Some old_reg)
        show ?thesis
        proof (cases "sub_Report req")
          case no_report: None
          with None Some old_reg have "SubmitReport self now req = (Panic, self)"
            by (simp add: SubmitReport_def)
          then show ?thesis by simp
        next
          case report: (Some report)
          show ?thesis
          proof (cases "reg_Observer old_reg = Observer report")
            case True
            with None Some old_reg report
            have "SubmitReport self now req = ingest_local (?p old_reg) req"
              by (simp add: SubmitReport_def)
            then show ?thesis using ingest_local_effects [of req "?p old_reg"] e [of old_reg] by simp
          next
            case False
            with None Some old_reg report
            have "SubmitReport self now req = (invalid_handle, self)"
              by (simp add: SubmitReport_def)
            then show ?thesis by (simp add: invalid_handle_def)
          qed
        qed
      qed
    qed
  qed
qed

lemma SubmitReport_restored_accepted:
  assumes "registrations self (sub_Handle req) = None" "old_registrations self = Some old"
    "old (sub_Handle req) = Some old_reg" "sub_Report req = Some report"
    "reg_Observer old_reg = Observer report"
    "fst (AddReport (snd (AddSubject (storage self) (reg_Observer old_reg) now)) report False) =
       REPORT_ACCEPTED"
  shows "\<exists>err. fst (SubmitReport self now req) = Return (Some \<lparr>Result = ACCEPTED\<rparr>) err"
proof -
  let ?p = "self\<lparr>registrations := (registrations self)(sub_Handle req \<mapsto> old_reg),
                 storage := snd (AddSubject (storage self) (reg_Observer old_reg) now)\<rparr>"
  from assms(1-5) have eq: "SubmitReport self now req = ingest_local ?p req"
    by (simp add: SubmitReport_def)
  from ingest_local_accepted [OF assms(4), of ?p] assms(6) show ?thesis
    unfolding eq by simp
qed

text \<open>
  Claim C4, amended. The hold buffer is drained by \<open>AnalyzeReport\<close> with
  \<open>check_hold\<close>, which \<open>SubmitReport\<close> starts in a goroutine (next to the
  propagation) for every locally submitted report the store accepts, whether
  the handle is registered or restored from the old registrations, and for
  no other submission. If the hold buffer returns at least one
  unexpired report for the subject, each is added to the store with the filter
  off, in order, the subject is emptied in the hold buffer and a subscription
  for the subject is sent; if it returns none, the store, the hold buffer and
  the effects stay as they are (no subscription). Either way the subject is
  put on the inference queue. \<open>Observe\<close> puts the subject on the watch list
  and sends a subscription, and changes neither the hold buffer nor the
  panoramas.
\<close>

theorem AnalyzeReport_drains_hold_buffer:
  "(CacheList_Get (hold_buffer self) now (Subject report) \<noteq> [] \<longrightarrow>
      storage (AnalyzeReport self now report True) =
        foldl (\<lambda>st item. snd (snd (AddReport st (snd item) False))) (storage self)
          (CacheList_Get (hold_buffer self) now (Subject report)) \<and>
      (\<forall>t. CacheList_Get (hold_buffer (AnalyzeReport self now report True)) t (Subject report) = []) \<and>
      effects (AnalyzeReport self now report True) = effects self @ [GoSubscribe (Subject report)]) \<and>
   (CacheList_Get (hold_buffer self) now (Subject report) = [] \<longrightarrow>
      storage (AnalyzeReport self now report True) = storage self \<and>
      hold_buffer (AnalyzeReport self now report True) = hold_buffer self \<and>
      effects (AnalyzeReport self now report True) = effects self) \<and>
   inf_queue (inference (AnalyzeReport self now report True)) =
     inf_queue (inference self) @ [Subject report] \<and>
   (\<forall>reg. registrations self (sub_Handle req) = Some reg \<and> sub_Report req = Some report \<and>
      fst (AddReport (storage self) report False) = REPORT_ACCEPTED \<longrightarrow>
      effects (snd (SubmitReport self now req)) =
        effects self @ [GoAnalyzeReport report True, GoPropagate report]) \<and>
   (\<forall>old old_reg.
      registrations self (sub_Handle req) = None \<and> old_registrations self = Some old \<and>
      old (sub_Handle req) = Some old_reg \<and> sub_Report req = Some report \<and>
      reg_Observer old_reg = Observer report \<and>
      fst (AddReport (snd (AddSubject (storage self) (reg_Observer old_reg) now)) report False) =
        REPORT_ACCEPTED \<longrightarrow>
      effects (snd (SubmitReport self now req)) =
        effects self @ [GoAnalyzeReport report True, GoPropagate report]) \<and>
   (\<forall>err. sub_Report req = Some report \<and>
      fst (SubmitReport self now req) = Return (Some \<lparr>Result = ACCEPTED\<rparr>) err \<longrightarrow>
      effects (snd (SubmitReport self now req)) =
        effects self @ [GoAnalyzeReport report True, GoPropagate report]) \<and>
   ((\<forall>err. fst (SubmitReport self now req) \<noteq> Return (Some \<lparr>Result = ACCEPTED\<rparr>) err) \<longrightarrow>
      effects (snd (SubmitReport self now req)) = effects self) \<and>
   hold_buffer (snd (Observe self now subject)) = hold_buffer self \<and>
   Tenants (storage (snd (Observe self now subject))) = Tenants (storage self) \<and>
   subject \<in> dom (Watchlist (storage (snd (Observe self now subject)))) \<and>
   effects (snd (Observe self now subject)) = effects self @ [GoSubscribe subject]"
proof -
  have sub: "\<forall>reg. registrations self (sub_Handle req) = Some reg \<and> sub_Report req = Some report \<and>
      fst (AddReport (storage self) report False) = REPORT_ACCEPTED \<longrightarrow>
      effects (snd (SubmitReport self now req)) =
        effects self @ [GoAnalyzeReport report True, GoPropagate report]"
    by (auto simp: SubmitReport_def ingest_local_def split: prod.splits)
  have acc: "\<forall>err. sub_Report req = Some report \<and>
      fst (SubmitReport self now req) = Return (Some \<lparr>Result = ACCEPTED\<rparr>) err \<longrightarrow>
      effects (snd (SubmitReport self now req)) =
        effects self @ [GoAnalyzeReport report True, GoPropagate report]"
    using SubmitReport_effects [of req self now] by blast
  have nacc: "(\<forall>err. fst (SubmitReport self now req) \<noteq> Return (Some \<lparr>Result = ACCEPTED\<rparr>) err) \<longrightarrow>
      effects (snd (SubmitReport self now req)) = effects self"
    using SubmitReport_effects [of req self now] by blast
  have res: "\<forall>old old_reg.
      registrations self (sub_Handle req) = None \<and> old_registrations self = Some old \<and>
      old (sub_Handle req) = Some old_reg \<and> sub_Report req = Some report \<and>
      reg_Observer old_reg = Observer report \<and>
      fst (AddReport (snd (AddSubject (storage self) (reg_Observer old_reg) now)) report False) =
        REPORT_ACCEPTED \<longrightarrow>
      effects (snd (SubmitReport self now req)) =
        effects self @ [GoAnalyzeReport report True, GoPropagate report]"
  proof (intro allI impI)
    fix old old_reg
    assume a: "registrations self (sub_Handle req) = None \<and> old_registrations self = Some old \<and>
      old (sub_Handle req) = Some old_reg \<and> sub_Report req = Some report \<and>
      reg_Observer old_reg = Observer report \<and>
      fst (AddReport (snd (AddSubject (storage self) (reg_Observer old_reg) now)) report False) =
        REPORT_ACCEPTED"
    then obtain err where "fst (SubmitReport self now req) = Return (Some \<lparr>Result = ACCEPTED\<rparr>) err"
      using SubmitReport_restored_accepted [of self req old old_reg report now] by blast
    with a acc show "effects (snd (SubmitReport self now req)) =
        effects self @ [GoAnalyzeReport report True, GoPropagate report]" by blast
  qed
  have obs: "hold_buffer (snd (Observe self now subject)) = hold_buffer self \<and>
   Tenants (storage (snd (Observe self now subject))) = Tenants (storage self) \<and>
   subject \<in> dom (Watchlist (storage (snd (Observe self now subject)))) \<and>
   effects (snd (Observe self now subject)) = effects self @ [GoSubscribe subject]"
    by (auto simp: Observe_def AddSubject_def split: option.splits)
  have an: "(CacheList_Get (hold_buffer self) now (Subject report) \<noteq> [] \<longrightarrow>
      storage (AnalyzeReport self now report True) =
        foldl (\<lambda>st item. snd (snd (AddReport st (snd item) False))) (storage self)
          (CacheList_Get (hold_buffer self) now (Subject report)) \<and>
      (\<forall>t. CacheList_Get (hold_buffer (AnalyzeReport self now report True)) t (Subject report) = []) \<and>
      effects (AnalyzeReport self now report True) = effects self @ [GoSubscribe (Subject report)]) \<and>
   (CacheList_Get (hold_buffer self) now (Subject report) = [] \<longrightarrow>
      storage (AnalyzeReport self now report True) = storage self \<and>
      hold_buffer (AnalyzeReport self now report True) = hold_buffer self \<and>
      effects (AnalyzeReport self now report True) = effects self) \<and>
   inf_queue (inference (AnalyzeReport self now report True)) =
     inf_queue (inference self) @ [Subject report]"
    by (simp add: AnalyzeReport_def Let_def CacheList_Empty_def CacheList_Get_def InferReportAsync_def)
  from an sub res acc nacc obs show ?thesis by blast
qed


theorem AnalyzeReport_drains_hold_buffer_witness:
  "CacheList_Get (hold_buffer held_server) 50 ''web'' = [(20, web_report)] \<and>
   store_GetView (storage (AnalyzeReport held_server 50 local_web_report True)) ''web'' ''obs2'' =
     Some [\<lparr>Ts = 15, Metrics = [\<lparr>Name = ''cpu'', Status = UNHEALTHY, Score = 30\<rparr>]\<rparr>] \<and>
   CacheList_Get (hold_buffer (AnalyzeReport held_server 50 local_web_report True)) 50 ''web'' = [] \<and>
   effects (AnalyzeReport held_server 50 local_web_report True) = [GoSubscribe ''web''] \<and>
   CacheList_Get (hold_buffer demo_server) 50 ''web'' = [] \<and>
   effects (AnalyzeReport demo_server 50 local_web_report True) = [] \<and>
   effects (snd (SubmitReport registered_server 20 submit_request)) =
     effects registered_server @ [GoAnalyzeReport demo_report True, GoPropagate demo_report] \<and>
   registrations restarted_server (sub_Handle submit_request) = None \<and>
   effects (snd (SubmitReport restarted_server 20 submit_request)) =
     effects restarted_server @ [GoAnalyzeReport demo_report True, GoPropagate demo_report] \<and>
   effects (snd (SubmitReport demo_server 20 submit_request)) = effects demo_server"
proof -
  have g1: "CacheList_Get (hold_buffer held_server) 50 (Subject local_web_report) = [(20, web_report)]"
    by (simp add: held_server_hold_buffer CacheList_Get_def unexpired_def local_web_report_def)
  have g2: "CacheList_Get (hold_buffer demo_server) 50 (Subject local_web_report) = []"
    by (simp add: demo_server_hold_buffer CacheList_Get_def)
  note e2 = demo_server_effects
  have v: "registrations registered_server (sub_Handle submit_request) =
     Some \<lparr>reg_Module = ''mod'', reg_Observer = ''obs1'', reg_Handle = 10000, reg_Time = 5\<rparr> \<and>
     sub_Report submit_request = Some demo_report \<and>
     fst (AddReport (storage registered_server) demo_report False) = REPORT_ACCEPTED"
    by (simp add: registrations_registered_server submit_request_def registered_server_storage
        AddReport_def demo_report_def Let_def)
  have r: "registrations restarted_server (sub_Handle submit_request) = None \<and>
     old_registrations restarted_server = Some persisted_registrations \<and>
     persisted_registrations (sub_Handle submit_request) =
       Some \<lparr>reg_Module = ''mod'', reg_Observer = ''obs1'', reg_Handle = 10000, reg_Time = 5\<rparr> \<and>
     sub_Report submit_request = Some demo_report \<and>
     reg_Observer \<lparr>reg_Module = ''mod'', reg_Observer = ''obs1'', reg_Handle = 10000, reg_Time = 5\<rparr> =
       Observer demo_report \<and>
     fst (AddReport (snd (AddSubject (storage restarted_server)
        (reg_Observer \<lparr>reg_Module = ''mod'', reg_Observer = ''obs1'', reg_Handle = 10000, reg_Time = 5\<rparr>) 20))
        demo_report False) = REPORT_ACCEPTED"
    by (simp add: restarted_server_registrations persisted_registrations_def submit_request_def
        restarted_server_storage AddSubject_def AddReport_def demo_report_def Let_def)
  have n: "fst (SubmitReport demo_server 20 submit_request) \<noteq> Return (Some \<lparr>Result = ACCEPTED\<rparr>) err" for err
    by (simp add: SubmitReport_def registrations_demo_server submit_request_def demo_server_def
        NewHealthGServer_def invalid_handle_def)
  have ing: "store_GetView (snd (snd (AddReport (storage held_server) web_report False))) ''web'' ''obs2'' =
      Some [\<lparr>Ts = 15, Metrics = [\<lparr>Name = ''cpu'', Status = UNHEALTHY, Score = 30\<rparr>]\<rparr>]"
    by (simp add: held_server_storage AddReport_def web_report_def Let_def store_GetView_def)
  from AnalyzeReport_drains_hold_buffer [of held_server 50 local_web_report submit_request "''web''"] g1 ing
  have a: "store_GetView (storage (AnalyzeReport held_server 50 local_web_report True)) ''web'' ''obs2'' =
     Some [\<lparr>Ts = 15, Metrics = [\<lparr>Name = ''cpu'', Status = UNHEALTHY, Score = 30\<rparr>]\<rparr>] \<and>
   CacheList_Get (hold_buffer (AnalyzeReport held_server 50 local_web_report True)) 50 ''web'' = [] \<and>
   effects (AnalyzeReport held_server 50 local_web_report True) = [GoSubscribe ''web'']"
    by (simp add: held_server_effects local_web_report_def)
  from AnalyzeReport_drains_hold_buffer [of demo_server 50 local_web_report submit_request "''web''"] g2 e2
  have b: "effects (AnalyzeReport demo_server 50 local_web_report True) = []"
    by simp
  from AnalyzeReport_drains_hold_buffer [of registered_server 20 demo_report submit_request "''web''"] v
  have c: "effects (snd (SubmitReport registered_server 20 submit_request)) =
     effects registered_server @ [GoAnalyzeReport demo_report True, GoPropagate demo_report]"
    by blast
  from AnalyzeReport_drains_hold_buffer [of restarted_server 20 demo_report submit_request "''web''"] r
  have d: "effects (snd (SubmitReport restarted_server 20 submit_request)) =
     effects restarted_server @ [GoAnalyzeReport demo_report True, GoPropagate demo_report]"
    by blast
  from AnalyzeReport_drains_hold_buffer [of demo_server 20 demo_report submit_request "''web''"] n
  have e: "effects (snd (SubmitReport demo_server 20 submit_request)) = effects demo_server"
    by blast
  from a b c d e g1 g2 r show ?thesis by (simp add: local_web_report_def)
qed

subsection \<open>The garbage-collection loop\<close>

lemma enqueue_retired:
  "set ks \<subseteq> dom (map_of retired) \<Longrightarrow>
   inf_queue (foldl (\<lambda>i subject. case map_of retired subject of
                                     None \<Rightarrow> i
                                   | Some r \<Rightarrow> InferSubjectAsync i subject) i0 ks) =
     inf_queue i0 @ ks"
  by (induction ks arbitrary: i0) (auto simp: InferSubjectAsync_def)

lemma store_GC_retired_keys:
  "(subject, pano) \<in> set (Tenants st) \<Longrightarrow> 0 < fst (gc_panorama threshold relative now pano) \<Longrightarrow>
   subject \<in> dom (map_of (fst (store_GC st threshold relative now)))"
proof -
  assume a: "(subject, pano) \<in> set (Tenants st)" and b: "0 < fst (gc_panorama threshold relative now pano)"
  have "(subject, fst (gc_panorama threshold relative now pano)) \<in>
      set (fst (store_GC st threshold relative now))"
    using a b by (force simp: store_GC_def)
  then have "subject \<in> fst ` set (fst (store_GC st threshold relative now))"
    by (rule image_eqI [rotated]) simp
  then show ?thesis by (simp add: dom_map_of_conv_image_fst)
qed

lemma store_GC_retired_positive:
  "map_of (fst (store_GC st threshold relative now)) subject = Some n \<Longrightarrow> 0 < n"
  by (auto simp: store_GC_def dest!: map_of_SomeD)

lemma GC_round_srv: "srv (GC_round self now ks) = srv self"
  by (simp add: GC_round_def split: prod.splits)

lemma GC_round_storage:
  "storage (GC_round self now ks) =
     snd (store_GC (storage self) (gc_threshold (vars self)) (gc_relative (vars self)) now)"
  by (simp add: GC_round_def split: prod.splits)

lemma GC_round_queue:
  "range_order (map_of (fst (store_GC (storage self) (gc_threshold (vars self)) (gc_relative (vars self)) now))) ks \<Longrightarrow>
   inf_queue (inference (GC_round self now ks)) = inf_queue (inference self) @ ks"
  by (simp add: GC_round_def range_order_def enqueue_retired split: prod.splits)

lemma gc_server_facts:
  "srv gc_server = Some GrpcServer"
  "vars gc_server = \<lparr>gc_frequency = 180000000000, gc_threshold = 300000000000, gc_relative = False\<rparr>"
  "storage gc_server =
     \<lparr>Watchlist = [''db'' \<mapsto> 0, ''obs1'' \<mapsto> 5],
      Tenants = [(''db'', [(''obs1'', [\<lparr>Ts = 10, Metrics = [\<lparr>Name = ''cpu'', Status = HEALTHY, Score = 90\<rparr>]\<rparr>])])],
      view_bound = 10, st_sink = True\<rparr>"
  "inf_queue (inference gc_server) = []"
  by (simp_all add: gc_server_def gc_config_def demo_config_def NewHealthGServer_def Register_def
      demo_request_def HANDLE_START_def Let_def SubmitReport_def submit_request_def ingest_local_def
      AddReport_def AddSubject_def NewRawHealthStorage_def demo_report_def Start_def demo_env_def
      GC_FREQUENCY_def GC_THRESHOLD_def Minute_def Second_def store_SetDB_def infer_SetDB_def
      infer_Start_def NewHealthInferenceStorage_def)

lemma stopped_gc_server_facts:
  "fst (Stop gc_server True) = None"
  "srv (snd (Stop gc_server True)) = None"
  "vars (snd (Stop gc_server True)) = vars gc_server"
  "storage (snd (Stop gc_server True)) = storage gc_server"
  "inf_queue (inference (snd (Stop gc_server True))) = []"
  by (simp_all add: Stop_def gc_server_facts infer_Stop_def)

lemma stopped_gc_server_GC:
  "store_GC
     \<lparr>Watchlist = [''db'' \<mapsto> 0, ''obs1'' \<mapsto> 5],
      Tenants = [(''db'', [(''obs1'', [\<lparr>Ts = 10, Metrics = [\<lparr>Name = ''cpu'', Status = HEALTHY, Score = 90\<rparr>]\<rparr>])])],
      view_bound = 10, st_sink = True\<rparr> 300000000000 False 600000000000 =
     ([(''db'', 1)],
      \<lparr>Watchlist = [''db'' \<mapsto> 0, ''obs1'' \<mapsto> 5], Tenants = [(''db'', [])],
       view_bound = 10, st_sink = True\<rparr>)"
  by (simp add: store_GC_def gc_panorama_def gc_view_def)

text \<open>
  Claim C6, as stated, fails in its last part: a \<open>Stop\<close> that comes while the
  loop sleeps does not keep the loop from collecting once more. The loop
  passes its guard on the running server and sleeps; the server is stopped;
  when the sleep is over the loop calls the store's \<open>GC\<close>, which retires the
  observation of \<open>obs1\<close> about \<open>db\<close>, and enqueues \<open>db\<close> for inference. Only
  the next guard ends the loop.
\<close>

theorem GC_round_after_Stop:
  "GC_step 100 [] (AtGuard, gc_server) = (Sleeping 180000000100, gc_server) \<and>
   fst (Stop gc_server True) = None \<and>
   srv (snd (Stop gc_server True)) = None \<and>
   store_GetView (storage (snd (Stop gc_server True))) ''db'' ''obs1'' =
     Some [\<lparr>Ts = 10, Metrics = [\<lparr>Name = ''cpu'', Status = HEALTHY, Score = 90\<rparr>]\<rparr>] \<and>
   fst (GC_step 600000000000 [''db''] (Sleeping 180000000100, snd (Stop gc_server True))) = AtGuard \<and>
   store_GetView
     (storage (snd (GC_step 600000000000 [''db''] (Sleeping 180000000100, snd (Stop gc_server True)))))
     ''db'' ''obs1'' = None \<and>
   inf_queue (inference (snd (GC_step 600000000000 [''db''] (Sleeping 180000000100, snd (Stop gc_server True))))) =
     [''db'']"
  by (simp add: gc_server_facts stopped_gc_server_facts GC_round_def stopped_gc_server_GC
      store_GetView_def InferSubjectAsync_def)

text \<open>
  Claim C6, amended. \<open>Start\<close> starts the loop when \<open>gc_frequency\<close> is
  positive (and only then). At its guard the loop goes to sleep for
  \<open>gc_frequency\<close> if the server handle is set and leaves for good if it is
  nil. When the sleep is over, the loop runs one round whether or not the
  server has been stopped in the meantime: it calls the store's \<open>GC\<close> with
  \<open>gc_threshold\<close> and \<open>gc_relative\<close>, and, ranging over the retired counts,
  enqueues every subject that has retired observations for inference (and no
  other). So a loop that sleeps when the server is stopped performs exactly
  one more round and ends at its next guard; a loop at its guard ends at once.
\<close>

theorem GC_loop_steps:
  "(srv self = None \<and> listen_ok env \<longrightarrow>
      (0 < gc_frequency (vars self) \<longrightarrow>
         effects (snd (Start self env)) = effects self @ [GoServe, PingAll, GoGC]) \<and>
      (\<not> 0 < gc_frequency (vars self) \<longrightarrow>
         effects (snd (Start self env)) = effects self @ [GoServe, PingAll])) \<and>
   (srv self \<noteq> None \<longrightarrow>
      GC_step now ks (AtGuard, self) = (Sleeping (now + gc_frequency (vars self)), self)) \<and>
   (srv self = None \<longrightarrow> GC_step now ks (AtGuard, self) = (Exited, self)) \<and>
   GC_step now ks (Exited, self) = (Exited, self) \<and>
   (now < until \<longrightarrow> GC_step now ks (Sleeping until, self) = (Sleeping until, self)) \<and>
   (until \<le> now \<longrightarrow>
      fst (GC_step now ks (Sleeping until, self)) = AtGuard \<and>
      srv (snd (GC_step now ks (Sleeping until, self))) = srv self \<and>
      storage (snd (GC_step now ks (Sleeping until, self))) =
        snd (store_GC (storage self) (gc_threshold (vars self)) (gc_relative (vars self)) now) \<and>
      (range_order
         (map_of (fst (store_GC (storage self) (gc_threshold (vars self)) (gc_relative (vars self)) now))) ks \<longrightarrow>
         inf_queue (inference (snd (GC_step now ks (Sleeping until, self)))) =
           inf_queue (inference self) @ ks \<and>
         (\<forall>subject pano.
            (subject, pano) \<in> set (Tenants (storage self)) \<and>
            0 < fst (gc_panorama (gc_threshold (vars self)) (gc_relative (vars self)) now pano) \<longrightarrow>
            subject \<in> set ks) \<and>
         (\<forall>subject\<in>set ks. \<exists>n.
            map_of (fst (store_GC (storage self) (gc_threshold (vars self)) (gc_relative (vars self)) now))
              subject = Some n \<and> 0 < n)) \<and>
      (srv self = None \<longrightarrow>
         GC_step now' ks' (GC_step now ks (Sleeping until, self)) = (Exited, GC_round self now ks)))"
proof -
  have start: "srv self = None \<and> listen_ok env \<longrightarrow>
      (0 < gc_frequency (vars self) \<longrightarrow>
         effects (snd (Start self env)) = effects self @ [GoServe, PingAll, GoGC]) \<and>
      (\<not> 0 < gc_frequency (vars self) \<longrightarrow>
         effects (snd (Start self env)) = effects self @ [GoServe, PingAll])"
    by (simp add: Start_def Let_def)
  have round: "range_order
         (map_of (fst (store_GC (storage self) (gc_threshold (vars self)) (gc_relative (vars self)) now))) ks \<longrightarrow>
         inf_queue (inference (GC_round self now ks)) = inf_queue (inference self) @ ks \<and>
         (\<forall>subject pano.
            (subject, pano) \<in> set (Tenants (storage self)) \<and>
            0 < fst (gc_panorama (gc_threshold (vars self)) (gc_relative (vars self)) now pano) \<longrightarrow>
            subject \<in> set ks) \<and>
         (\<forall>subject\<in>set ks. \<exists>n.
            map_of (fst (store_GC (storage self) (gc_threshold (vars self)) (gc_relative (vars self)) now))
              subject = Some n \<and> 0 < n)"
  proof (intro impI conjI allI ballI)
    assume ro: "range_order
         (map_of (fst (store_GC (storage self) (gc_threshold (vars self)) (gc_relative (vars self)) now))) ks"
    show "inf_queue (inference (GC_round self now ks)) = inf_queue (inference self) @ ks"
      by (rule GC_round_queue [OF ro])
    {
      fix subject pano
      assume "(subject, pano) \<in> set (Tenants (storage self)) \<and>
            0 < fst (gc_panorama (gc_threshold (vars self)) (gc_relative (vars self)) now pano)"
      then show "subject \<in> set ks"
        using store_GC_retired_keys [of subject pano "storage self" "gc_threshold (vars self)"
            "gc_relative (vars self)" now] ro
        by (simp add: range_order_def)
    }
    {
      fix subject
      assume "subject \<in> set ks"
      with ro obtain n where
        n: "map_of (fst (store_GC (storage self) (gc_threshold (vars self)) (gc_relative (vars self)) now))
              subject = Some n"
        by (auto simp: range_order_def)
      from store_GC_retired_positive [OF n] n
      show "\<exists>n. map_of (fst (store_GC (storage self) (gc_threshold (vars self)) (gc_relative (vars self)) now))
              subject = Some n \<and> 0 < n"
        by blast
    }
  qed
  show ?thesis
    using start round by (simp add: GC_round_srv GC_round_storage)
qed

theorem GC_loop_steps_witness:
  "GC_step 100 [] (AtGuard, gc_server) = (Sleeping 180000000100, gc_server) \<and>
   GC_step 200 [] (Sleeping 180000000100, gc_server) = (Sleeping 180000000100, gc_server) \<and>
   inf_queue (inference (snd (GC_step 600000000000 [''db''] (Sleeping 180000000100, gc_server)))) = [''db''] \<and>
   GC_step 100 [] (AtGuard, snd (Stop gc_server True)) = (Exited, snd (Stop gc_server True)) \<and>
   GC_step 600000000001 []
     (GC_step 600000000000 [''db''] (Sleeping 180000000100, snd (Stop gc_server True))) =
     (Exited, GC_round (snd (Stop gc_server True)) 600000000000 [''db''])"
proof -
  have gc: "store_GC (storage gc_server) (gc_threshold (vars gc_server)) (gc_relative (vars gc_server))
      600000000000 =
     ([(''db'', 1)],
      \<lparr>Watchlist = [''db'' \<mapsto> 0, ''obs1'' \<mapsto> 5], Tenants = [(''db'', [])],
       view_bound = 10, st_sink = True\<rparr>)"
    using stopped_gc_server_GC by (simp add: stopped_gc_server_facts gc_server_facts)
  have ro: "range_order
      (map_of (fst (store_GC (storage gc_server) (gc_threshold (vars gc_server))
         (gc_relative (vars gc_server)) 600000000000))) [''db'']"
    by (simp add: gc range_order_def)
  from GC_loop_steps [of gc_server demo_env 100 "[]" 180000000100 100 "[]"]
  have a: "GC_step 100 [] (AtGuard, gc_server) = (Sleeping 180000000100, gc_server)"
    by (simp add: gc_server_facts)
  from GC_loop_steps [of gc_server demo_env 200 "[]" 180000000100 100 "[]"]
  have b: "GC_step 200 [] (Sleeping 180000000100, gc_server) = (Sleeping 180000000100, gc_server)"
    by simp
  from GC_loop_steps [of gc_server demo_env 600000000000 "[''db'']" 180000000100 100 "[]"] ro
  have c: "inf_queue (inference (snd (GC_step 600000000000 [''db''] (Sleeping 180000000100, gc_server)))) = [''db'']"
    by (simp add: gc_server_facts)
  from GC_loop_steps [of "snd (Stop gc_server True)" demo_env 100 "[]" 180000000100 100 "[]"]
  have d: "GC_step 100 [] (AtGuard, snd (Stop gc_server True)) = (Exited, snd (Stop gc_server True))"
    by (simp add: stopped_gc_server_facts)
  from GC_loop_steps [of "snd (Stop gc_server True)" demo_env 600000000000 "[''db'']" 180000000100 600000000001 "[]"]
  have e: "GC_step 600000000001 []
     (GC_step 600000000000 [''db''] (Sleeping 180000000100, snd (Stop gc_server True))) =
     (Exited, GC_round (snd (Stop gc_server True)) 600000000000 [''db''])"
    by (simp add: stopped_gc_server_facts)
  from a b c d e show ?thesis by simp
qed

subsection \<open>Handles along a run\<close>

lemma ingest_local_next_handle: "next_handle (snd (ingest_local self req)) = next_handle self"
  by (simp add: ingest_local_def split: option.splits prod.splits accept_code.splits)

lemma SubmitReport_registry:
  "\<not> restores self req \<Longrightarrow>
   registrations (snd (SubmitReport self now req)) = registrations self \<and>
   next_handle (snd (SubmitReport self now req)) = next_handle self"
  by (auto simp: SubmitReport_def restores_def ingest_local_registrations ingest_local_next_handle
      split: option.splits)

lemma LearnReport_registry:
  "registrations (snd (LearnReport self now req)) = registrations self \<and>
   next_handle (snd (LearnReport self now req)) = next_handle self"
  by (simp add: LearnReport_def split: learn_kind.splits option.splits prod.splits accept_code.splits)

lemma Observe_registry:
  "registrations (snd (Observe self now subject)) = registrations self \<and>
   next_handle (snd (Observe self now subject)) = next_handle self"
  by (simp add: Observe_def split: prod.splits)

lemma Start_registry:
  "registrations (snd (Start self env)) = registrations self \<and>
   next_handle (snd (Start self env)) = next_handle self"
  by (simp add: Start_def Let_def)

lemma Stop_registry:
  "registrations (snd (Stop self graceful)) = registrations self \<and>
   next_handle (snd (Stop self graceful)) = next_handle self"
  by (simp add: Stop_def)

lemma AnalyzeReport_registry:
  "registrations (AnalyzeReport self now report check_hold) = registrations self \<and>
   next_handle (AnalyzeReport self now report check_hold) = next_handle self"
  by (simp add: AnalyzeReport_def Let_def)

lemma GC_round_registry:
  "registrations (GC_round self now ks) = registrations self \<and>
   next_handle (GC_round self now ks) = next_handle self"
  by (simp add: GC_round_def split: prod.splits)

lemma after_registry:
  assumes "call_ok self c" "\<forall>now ks req. c \<noteq> Call_Register now ks req"
  shows "registrations (after self c) = registrations self"
    and "next_handle (after self c) = next_handle self"
  using assms
  by (cases c; auto simp: SubmitReport_registry LearnReport_registry Observe_registry
      Start_registry Stop_registry AnalyzeReport_registry GC_round_registry)+

lemma registry_inv_cong:
  "registrations s = registrations t \<Longrightarrow> next_handle s = next_handle t \<Longrightarrow>
   registry_inv s = registry_inv t"
  by (simp add: registry_inv_def)

lemma run_calls_other:
  "\<forall>now ks req. c \<noteq> Call_Register now ks req \<Longrightarrow>
   run_calls self (c # calls) = run_calls (after self c) calls"
  by (cases c) auto

lemma run_calls_inv:
  assumes "registry_inv self" "0 < next_handle self"
    "unat (next_handle self) + length calls < 2 ^ 64" "calls_ok self calls"
  shows "registry_inv (foldl after self calls) \<and>
         (\<forall>h r. registrations self h = Some r \<longrightarrow>
                registrations (foldl after self calls) h = Some r) \<and>
         (\<forall>a\<in>set (run_calls self calls). \<exists>r.
            registrations (foldl after self calls) (snd a) = Some r \<and> matches r (fst a))"
  using assms
proof (induction calls arbitrary: self)
  case Nil
  then show ?case by simp
next
  case (Cons c calls)
  from Cons.prems(4) have ok: "call_ok self c" and ok1: "calls_ok (after self c) calls" by simp_all
  show ?case
  proof (cases "\<exists>now ks req. c = Call_Register now ks req")
    case True
    then obtain now ks req where c: "c = Call_Register now ks req" by blast
    let ?s1 = "snd (Register self now ks req)"
    let ?h = "Handle (fst (Register self now ks req))"
    from ok c have ro: "range_order (registrations self) ks" by simp
    from Cons.prems(3) have b1: "unat (next_handle self) + 1 < 2 ^ 64" by simp
    note st = Register_step [OF Cons.prems(1,2) b1 ro, of now req]
    from st Cons.prems(3) have b2: "unat (next_handle ?s1) + length calls < 2 ^ 64" by simp
    from st have inv1: "registry_inv ?s1" and pos1: "0 < next_handle ?s1" by blast+
    from ok1 c have ok1': "calls_ok ?s1 calls" by simp
    note ih = Cons.IH [OF inv1 pos1 b2 ok1']
    have keep: "\<forall>h r. registrations self h = Some r \<longrightarrow>
                registrations (foldl after ?s1 calls) h = Some r"
      using st ih by blast
    have "\<exists>r. registrations (foldl after ?s1 calls) ?h = Some r \<and> matches r req"
      using st ih by blast
    with ih keep show ?thesis by (simp add: c)
  next
    case False
    then have nr: "\<forall>now ks req. c \<noteq> Call_Register now ks req" by blast
    note same = after_registry [OF ok nr]
    from Cons.prems(1) same have inv1: "registry_inv (after self c)"
      by (simp add: registry_inv_def)
    from Cons.prems(2) same have pos1: "0 < next_handle (after self c)" by simp
    from Cons.prems(3) same have b2: "unat (next_handle (after self c)) + length calls < 2 ^ 64"
      by simp
    note ih = Cons.IH [OF inv1 pos1 b2 ok1]
    from ih same show ?thesis by (simp add: run_calls_other [OF nr])
  qed
qed

lemma run_calls_increasing:
  assumes "registry_inv self" "0 < next_handle self"
    "unat (next_handle self) + length calls < 2 ^ 64" "calls_ok self calls"
    "distinct (map fst (run_calls self calls))"
    "\<forall>a\<in>set (run_calls self calls). \<forall>h r. registrations self h = Some r \<longrightarrow> \<not> matches r (fst a)"
  shows "sorted_wrt (<) (map snd (run_calls self calls)) \<and>
         (\<forall>a\<in>set (run_calls self calls). next_handle self \<le> snd a)"
  using assms
proof (induction calls arbitrary: self)
  case Nil
  then show ?case by simp
next
  case (Cons c calls)
  from Cons.prems(4) have ok: "call_ok self c" and ok1: "calls_ok (after self c) calls" by simp_all
  show ?case
  proof (cases "\<exists>now ks req. c = Call_Register now ks req")
    case True
    then obtain now ks req where c: "c = Call_Register now ks req" by blast
    let ?s1 = "snd (Register self now ks req)"
    have run: "run_calls self (c # calls) =
        (req, Handle (fst (Register self now ks req))) # run_calls ?s1 calls"
      by (simp add: c)
    from ok c have ro: "range_order (registrations self) ks" by simp
    from Cons.prems(3) have b1: "unat (next_handle self) + 1 < 2 ^ 64" by simp
    have no: "\<And>h r. registrations self h = Some r \<Longrightarrow> \<not> matches r req"
      using Cons.prems(6) unfolding run by simp
    note f = Register_fresh [OF Cons.prems(1,2) b1 no, where now = now and ks = ks]
    note st = Register_step [OF Cons.prems(1,2) b1 ro, of now req]
    from st Cons.prems(3) have b2: "unat (next_handle ?s1) + length calls < 2 ^ 64" by simp
    from st have inv1: "registry_inv ?s1" and pos1: "0 < next_handle ?s1" by blast+
    from ok1 c have ok1': "calls_ok ?s1 calls" by simp
    from Cons.prems(5) have d1: "distinct (map fst (run_calls ?s1 calls))"
      and nin: "req \<notin> fst ` set (run_calls ?s1 calls)"
      unfolding run by simp_all
    have no1: "\<forall>a\<in>set (run_calls ?s1 calls). \<forall>h r.
        registrations ?s1 h = Some r \<longrightarrow> \<not> matches r (fst a)"
    proof (intro ballI allI impI)
      fix a h r
      assume a: "a \<in> set (run_calls ?s1 calls)" and r: "registrations ?s1 h = Some r"
      from nin a have ne: "fst a \<noteq> req" by (auto simp: image_iff)
      show "\<not> matches r (fst a)"
      proof (cases "h = next_handle self")
        case True
        with r f(2) have "reg_Module r = req_Module req" "reg_Observer r = req_Observer req" by auto
        with ne show ?thesis by (auto simp: matches_def)
      next
        case False
        with r f(2) have "registrations self h = Some r" by auto
        with Cons.prems(6) a show ?thesis unfolding run by simp
      qed
    qed
    note ih = Cons.IH [OF inv1 pos1 b2 ok1' d1 no1]
    have lt: "next_handle self < next_handle ?s1"
      using f(3) handle_succ_greater [OF b1] by simp
    from ih lt have "\<forall>a\<in>set (run_calls ?s1 calls). next_handle self < snd a"
      by auto
    with ih f(1) show ?thesis unfolding run by (auto simp: less_imp_le)
  next
    case False
    then have nr: "\<forall>now ks req. c \<noteq> Call_Register now ks req" by blast
    note same = after_registry [OF ok nr]
    note run = run_calls_other [OF nr, of self calls]
    from Cons.prems(1) same have inv1: "registry_inv (after self c)"
      by (simp add: registry_inv_def)
    from Cons.prems(2) same have pos1: "0 < next_handle (after self c)" by simp
    from Cons.prems(3) same have b2: "unat (next_handle (after self c)) + length calls < 2 ^ 64"
      by simp
    from Cons.prems(5) have d1: "distinct (map fst (run_calls (after self c) calls))"
      unfolding run .
    from Cons.prems(6) same have no1: "\<forall>a\<in>set (run_calls (after self c) calls). \<forall>h r.
        registrations (after self c) h = Some r \<longrightarrow> \<not> matches r (fst a)"
      unfolding run by simp
    note ih = Cons.IH [OF inv1 pos1 b2 ok1 d1 no1]
    from ih same show ?thesis unfolding run by simp
  qed
qed

lemma run_calls_first:
  assumes "registrations self = Map.empty" "next_handle self = 10000" "calls_ok self calls"
    "run_calls self calls \<noteq> []"
  shows "snd (hd (run_calls self calls)) = 10000"
  using assms
proof (induction calls arbitrary: self)
  case Nil
  then show ?case by simp
next
  case (Cons c calls)
  from Cons.prems(3) have ok: "call_ok self c" and ok1: "calls_ok (after self c) calls" by simp_all
  show ?case
  proof (cases "\<exists>now ks req. c = Call_Register now ks req")
    case True
    then obtain now ks req where c: "c = Call_Register now ks req" by blast
    from Register_first [OF Cons.prems(1,2), of now ks req] show ?thesis by (simp add: c)
  next
    case False
    then have nr: "\<forall>now ks req. c \<noteq> Call_Register now ks req" by blast
    note same = after_registry [OF ok nr]
    note run = run_calls_other [OF nr, of self calls]
    from Cons.prems(4) have ne: "run_calls (after self c) calls \<noteq> []" unfolding run .
    from Cons.IH [OF _ _ ok1 ne] same Cons.prems(1,2) show ?thesis unfolding run by simp
  qed
qed

text \<open>
  Claim C1, amended. For every run of calls on a newly constructed server in
  which no \<open>SubmitReport\<close> restores an old registration (any other handler and
  goroutine may run between the registrations), whatever order Go ranges
  over the registration map in each \<open>Register\<close>, and as long as the handles do
  not exhaust the 64-bit range (fewer than \<open>2^64 - 10000\<close> calls): two
  \<open>Register\<close> calls with the same module and observer return the same
  handle; if the requests of the \<open>Register\<close> calls are pairwise distinct the
  returned handles are strictly increasing; and the first handle returned is
  \<open>HANDLE_START\<close>, 10000.
\<close>

theorem Register_handles:
  assumes "calls_ok (NewHealthGServer g bound now0 cfg) calls"
    and "length calls < 2 ^ 64 - 10000"
  shows
    "(\<forall>a\<in>set (run_calls (NewHealthGServer g bound now0 cfg) calls).
      \<forall>b\<in>set (run_calls (NewHealthGServer g bound now0 cfg) calls).
        req_Module (fst a) = req_Module (fst b) \<and> req_Observer (fst a) = req_Observer (fst b) \<longrightarrow>
        snd a = snd b) \<and>
     (distinct (map fst (run_calls (NewHealthGServer g bound now0 cfg) calls)) \<longrightarrow>
        sorted_wrt (<) (map snd (run_calls (NewHealthGServer g bound now0 cfg) calls))) \<and>
     (run_calls (NewHealthGServer g bound now0 cfg) calls \<noteq> [] \<longrightarrow>
        snd (hd (run_calls (NewHealthGServer g bound now0 cfg) calls)) = HANDLE_START)"
proof -
  let ?s = "NewHealthGServer g bound now0 cfg"
  have pos: "0 < next_handle ?s" by (simp add: next_handle_new)
  have b: "unat (next_handle ?s) + length calls < 2 ^ 64"
    using assms(2) by (simp add: next_handle_new)
  note inv = run_calls_inv [OF registry_inv_new pos b assms(1)]
  have same: "\<forall>a\<in>set (run_calls ?s calls). \<forall>b\<in>set (run_calls ?s calls).
        req_Module (fst a) = req_Module (fst b) \<and> req_Observer (fst a) = req_Observer (fst b) \<longrightarrow>
        snd a = snd b"
  proof (intro ballI impI)
    fix a b
    assume a: "a \<in> set (run_calls ?s calls)" and b: "b \<in> set (run_calls ?s calls)"
      and eq: "req_Module (fst a) = req_Module (fst b) \<and> req_Observer (fst a) = req_Observer (fst b)"
    from inv a obtain r where r: "registrations (foldl after ?s calls) (snd a) = Some r"
      "matches r (fst a)" by blast
    from inv b obtain r' where r': "registrations (foldl after ?s calls) (snd b) = Some r'"
      "matches r' (fst b)" by blast
    from r(2) r'(2) eq have "reg_Module r = reg_Module r'" "reg_Observer r = reg_Observer r'"
      by (auto simp: matches_def)
    with inv r(1) r'(1) show "snd a = snd b"
      unfolding registry_inv_def by blast
  qed
  have incr: "distinct (map fst (run_calls ?s calls)) \<longrightarrow> sorted_wrt (<) (map snd (run_calls ?s calls))"
  proof
    assume d: "distinct (map fst (run_calls ?s calls))"
    have "sorted_wrt (<) (map snd (run_calls ?s calls)) \<and>
         (\<forall>a\<in>set (run_calls ?s calls). next_handle ?s \<le> snd a)"
      by (rule run_calls_increasing [OF registry_inv_new pos b assms(1) d])
        (simp add: registrations_new)
    then show "sorted_wrt (<) (map snd (run_calls ?s calls))" by blast
  qed
  have first: "run_calls ?s calls \<noteq> [] \<longrightarrow> snd (hd (run_calls ?s calls)) = HANDLE_START"
    using run_calls_first [OF registrations_new next_handle_new assms(1)]
    by (simp add: HANDLE_START_def)
  from same incr first show ?thesis by blast
qed

lemmas eval_defs =
  demo_server_def demo_config_def NewHealthGServer_def NewRawHealthStorage_def initial_gc_vars_def
  Start_def demo_env_def persisted_registrations_def Register_def HANDLE_START_def AddSubject_def
  Observe_def SubmitReport_def submit_request_def demo_report_def ingest_local_def AddReport_def
  restores_def range_order_def Let_def store_SetDB_def infer_SetDB_def infer_Start_def
  InsertRegistration_def db_Open_def NewHealthDBStorage_def

lemma demo_calls_ok: "calls_ok demo_server demo_calls"
  by (simp add: demo_calls_def eval_defs)

lemma demo_calls_ok4: "calls_ok demo_server (take 4 demo_calls)"
  by (simp add: demo_calls_def eval_defs)

lemma demo_calls_run:
  "run_calls demo_server demo_calls =
     [(\<lparr>req_Module = ''mod'', req_Observer = ''obs1''\<rparr>, 10000),
      (\<lparr>req_Module = ''mod2'', req_Observer = ''obs2''\<rparr>, 10001),
      (\<lparr>req_Module = ''mod'', req_Observer = ''obs1''\<rparr>, 10000)]"
  by (simp add: demo_calls_def eval_defs)

text \<open>
  Claim C1, as stated, fails once an old registration is restored between
  two registrations. The server starts with the old registration of
  \<open>(mod, obs1)\<close> under handle 10003; \<open>Register\<close> of \<open>(mod, obs1)\<close> returns
  10000; a \<open>SubmitReport\<close> with handle 10003 and observer \<open>obs1\<close> restores the
  old registration; the registration map then holds \<open>(mod, obs1)\<close> under
  10000 and under 10003, and a \<open>Register\<close> of \<open>(mod, obs1)\<close> that ranges over
  10003 first returns 10003.
\<close>

theorem Register_after_restore:
  "run_calls demo_server race_calls = [(demo_request, 10000), (demo_request, 10003)] \<and>
   range_order (registrations (foldl after demo_server (take 1 race_calls))) [] \<and>
   range_order (registrations (foldl after demo_server (take 3 race_calls))) [10003, 10000]"
  by (simp add: race_calls_def race_env_def demo_request_def eval_defs)

lemma demo_calls_run4:
  "run_calls demo_server (take 4 demo_calls) =
     [(\<lparr>req_Module = ''mod'', req_Observer = ''obs1''\<rparr>, 10000),
      (\<lparr>req_Module = ''mod2'', req_Observer = ''obs2''\<rparr>, 10001)]"
  by (simp add: demo_calls_def eval_defs)

theorem Register_handles_witness:
  "calls_ok demo_server demo_calls \<and> calls_ok demo_server (take 4 demo_calls) \<and>
   snd (run_calls demo_server demo_calls ! 0) = snd (run_calls demo_server demo_calls ! 2) \<and>
   sorted_wrt (<) (map snd (run_calls demo_server (take 4 demo_calls))) \<and>
   snd (hd (run_calls demo_server demo_calls)) = HANDLE_START"
proof -
  have len: "length demo_calls < 2 ^ 64 - 10000" "length (take 4 demo_calls) < 2 ^ 64 - 10000"
    by (simp_all add: demo_calls_def)
  note a = Register_handles [OF demo_calls_ok [unfolded demo_server_def] len(1), folded demo_server_def]
  note b = Register_handles [OF demo_calls_ok4 [unfolded demo_server_def] len(2), folded demo_server_def]
  have "snd (run_calls demo_server demo_calls ! 0) = snd (run_calls demo_server demo_calls ! 2)"
    using a by (simp add: demo_calls_run HANDLE_START_def)
  moreover have "sorted_wrt (<) (map snd (run_calls demo_server (take 4 demo_calls)))"
    using b by (simp add: demo_calls_run4 HANDLE_START_def)
  moreover have "snd (hd (run_calls demo_server demo_calls)) = HANDLE_START"
    using a by (simp add: demo_calls_run)
  ultimately show ?thesis using demo_calls_ok demo_calls_ok4 by simp
qed

end
